theory Spec2Isabelle
  imports Complex_Main "HOL-Library.Log_Nat"
begin

section \<open>Student grade analyzer (lecture_3/main.py)\<close>

text \<open>
  A shallow embedding of the console program \<^verbatim>\<open>src/lecture_3/main.py\<close>.

  \<^item> A \<open>str\<close> is the list of its code points; \<open>lit\<close> gives the \<open>str\<close> of a literal.
  \<^item> The methods of \<open>str\<close> that the program calls (\<open>split\<close>, \<open>title\<close>, \<open>isalpha\<close>, \<open>isspace\<close>,
    and \<open>int\<close> applied to a \<open>str\<close>) consult the Unicode character database of the
    interpreter. For code points below 128 their answers are written out here; for all
    other code points they are read from a parameter \<open>E\<close>, a record \<open>py_env\<close>. A statement
    with a free \<open>E\<close> holds whatever the database says about the characters outside ASCII.
  \<^item> \<open>input()\<close> reads the next element of a list of lines. When the list is exhausted the
    call raises \<open>EOFError\<close>, which nothing in the program catches.
  \<^item> \<open>print\<close> and the prompt of \<open>input\<close> append an event to the console.
  \<^item> The global list \<open>students\<close> is passed explicitly and returned updated.
  \<^item> A Python \<open>float\<close> is modelled by the rational number it denotes. Division, addition
    and \<open>round\<close> produce the binary64 value that IEEE 754 prescribes (round to nearest,
    ties to even).
\<close>

subsection \<open>Text and characters\<close>

type_synonym str = "nat list"

definition lit :: "string \<Rightarrow> str" where
  "lit s = map of_char s"

text \<open>
  What the interpreter knows about a code point \<open>c \<ge> 128\<close>: whether it is alphabetic
  (\<open>str.isalpha\<close>), white space (\<open>str.isspace\<close>, \<open>str.split\<close>) or cased; its title-case form
  and its lower-case form, each a text of one to three code points; and its value as a
  decimal digit, if it is one. The lower-case form is asked for the character at a
  position of a text, because that of U+03A3 depends on the neighbours. The last field is
  the limit on the number of digits of a text that \<open>int\<close> converts (4300 unless
  reconfigured, 0 for no limit).
\<close>

record py_env =
  db_alpha :: "nat \<Rightarrow> bool"
  db_space :: "nat \<Rightarrow> bool"
  db_cased :: "nat \<Rightarrow> bool"
  db_title :: "nat \<Rightarrow> str"
  db_lower :: "str \<Rightarrow> nat \<Rightarrow> str"
  db_decimal :: "nat \<Rightarrow> nat option"
  int_max_str_digits :: nat

definition ascii :: "nat \<Rightarrow> bool" where
  "ascii c = (c < 128)"

definition ascii_isupper :: "nat \<Rightarrow> bool" where
  "ascii_isupper c = (65 \<le> c \<and> c \<le> 90)"

definition ascii_islower :: "nat \<Rightarrow> bool" where
  "ascii_islower c = (97 \<le> c \<and> c \<le> 122)"

definition ascii_isdigit :: "nat \<Rightarrow> bool" where
  "ascii_isdigit c = (48 \<le> c \<and> c \<le> 57)"

definition ascii_lower :: "nat \<Rightarrow> nat" where
  "ascii_lower c = (if ascii_isupper c then c + 32 else c)"

definition ascii_upper :: "nat \<Rightarrow> nat" where
  "ascii_upper c = (if ascii_islower c then c - 32 else c)"

definition py_isalpha :: "py_env \<Rightarrow> nat \<Rightarrow> bool" where
  "py_isalpha E c = (if c < 128 then ascii_isupper c \<or> ascii_islower c else db_alpha E c)"

text \<open>
  \<open>str.isspace\<close> and \<open>str.split()\<close> treat the code points 9 to 13 and 28 to 32 as white
  space, and beyond ASCII what the database calls white space; the integer parser behind
  \<open>int(str)\<close> skips only 9 to 13 and 32.
\<close>

definition py_isspace :: "py_env \<Rightarrow> nat \<Rightarrow> bool" where
  "py_isspace E c = (if c < 128 then (9 \<le> c \<and> c \<le> 13) \<or> (28 \<le> c \<and> c \<le> 32) else db_space E c)"

definition c_isspace :: "nat \<Rightarrow> bool" where
  "c_isspace c = ((9 \<le> c \<and> c \<le> 13) \<or> c = 32)"

definition py_iscased :: "py_env \<Rightarrow> nat \<Rightarrow> bool" where
  "py_iscased E c = (if c < 128 then ascii_isupper c \<or> ascii_islower c else db_cased E c)"

text \<open>The title-case form of a character, and the lower-case form of the character \<open>c\<close> at index \<open>i\<close> of \<open>s\<close>.\<close>

definition title_of :: "py_env \<Rightarrow> nat \<Rightarrow> str" where
  "title_of E c = (if c < 128 then [ascii_upper c] else db_title E c)"

definition lower_at :: "py_env \<Rightarrow> str \<Rightarrow> nat \<Rightarrow> nat \<Rightarrow> str" where
  "lower_at E s i c = (if c < 128 then [ascii_lower c] else db_lower E s i)"

text \<open>
  \<open>str.lower()\<close> as far as the comparison with \<open>"done"\<close> in \<open>valid_input\<close> can tell: the
  letters \<open>A\<close> to \<open>Z\<close> are lowered and every other code point is kept. The lower-case form
  of a code point outside ASCII never consists of the letters \<open>d\<close>, \<open>o\<close>, \<open>n\<close>, \<open>e\<close> (the only
  ASCII letters that occur in such forms are \<open>i\<close>, from U+0130, and \<open>k\<close>, from U+212A), so
  a text with such a code point differs from \<open>done\<close> before and after lowering.
\<close>

definition py_lower :: "str \<Rightarrow> str" where
  "py_lower s = map ascii_lower s"

subsection \<open>Parsing an integer: \<open>int(text)\<close>\<close>

text \<open>
  A text with a code point outside ASCII is first rewritten: code points below 127 are
  kept, white space becomes a blank, a decimal digit of any script becomes the ASCII digit
  of its value, and at the first other character the text is cut with a question mark.
\<close>

definition py_decimal :: "py_env \<Rightarrow> nat \<Rightarrow> nat option" where
  "py_decimal E c = (if c < 128 then (if ascii_isdigit c then Some (c - 48) else None)
                     else db_decimal E c)"

fun transform_decimal_and_space :: "py_env \<Rightarrow> str \<Rightarrow> str" where
  "transform_decimal_and_space E [] = []"
| "transform_decimal_and_space E (ch # rest) =
     (if ch < 127 then ch # transform_decimal_and_space E rest
      else if py_isspace E ch then 32 # transform_decimal_and_space E rest
      else case py_decimal E ch of
             None \<Rightarrow> [63]
           | Some decimal \<Rightarrow> (48 + decimal) # transform_decimal_and_space E rest)"

definition int_text :: "py_env \<Rightarrow> str \<Rightarrow> str" where
  "int_text E s = (if list_all ascii s then s else transform_decimal_and_space E s)"

text \<open>
  Then \<open>int\<close> skips white space at both ends, reads one optional sign, then a run of
  decimal digits in which single underscores may separate digits. Anything else raises
  \<open>ValueError\<close>, which is \<open>None\<close> here; so does a text of more than 640 digits that exceeds
  the configured limit.
\<close>

fun double_underscore :: "str \<Rightarrow> bool" where
  "double_underscore (a # b # r) = ((a = 95 \<and> b = 95) \<or> double_underscore (b # r))"
| "double_underscore _ = False"

definition digit_value :: "nat \<Rightarrow> nat" where
  "digit_value c = c - 48"

definition digits_value :: "str \<Rightarrow> nat" where
  "digits_value ds = foldl (\<lambda>a c. 10 * a + digit_value c) 0 ds"

definition int_body :: "nat \<Rightarrow> bool" where
  "int_body c = (ascii_isdigit c \<or> c = 95)"

definition split_sign :: "str \<Rightarrow> bool \<times> str" where
  "split_sign t = (case t of
      [] \<Rightarrow> (False, [])
    | c # r \<Rightarrow> if c = 43 then (False, r)
               else if c = 45 then (True, r)
               else (False, t))"

definition over_limit :: "py_env \<Rightarrow> nat \<Rightarrow> bool" where
  "over_limit E digits =
     (640 < digits \<and> 0 < int_max_str_digits E \<and> int_max_str_digits E < digits)"

definition py_int :: "py_env \<Rightarrow> str \<Rightarrow> int option" where
  "py_int E s =
     (let (neg, u) = split_sign (dropWhile c_isspace (int_text E s));
          body = takeWhile int_body u;
          rest = dropWhile int_body u
      in if body = [] \<or> hd body = 95 \<or> last body = 95
            \<or> double_underscore body \<or> \<not> list_all c_isspace rest
            \<or> over_limit E (length (filter ascii_isdigit body))
         then None
         else Some ((if neg then - 1 else 1) * int (digits_value (filter ascii_isdigit body))))"

subsection \<open>The grade validator: \<open>valid_input\<close>\<close>

text \<open>The result \<open>int | str | None\<close> of \<open>valid_input\<close> as a tagged value.\<close>

datatype grade_input = Done | Grade int | Invalid

definition valid_input :: "py_env \<Rightarrow> str \<Rightarrow> grade_input" where
  "valid_input E input_grade =
     (if py_lower input_grade = lit ''done'' then Done
      else case py_int E input_grade of
             None \<Rightarrow> Invalid
           | Some v \<Rightarrow> if 0 \<le> v \<and> v \<le> 100 then Grade v else Invalid)"

subsection \<open>The name validator: \<open>check_input\<close>\<close>

text \<open>
  \<open>str.split()\<close> without arguments: maximal runs of characters that are not white space,
  in order. \<open>split_acc E w s\<close> scans \<open>s\<close> with the word \<open>w\<close> read so far.
\<close>

fun split_acc :: "py_env \<Rightarrow> str \<Rightarrow> str \<Rightarrow> str list" where
  "split_acc E w [] = (if w = [] then [] else [w])"
| "split_acc E w (c # cs) =
     (if py_isspace E c then (if w = [] then split_acc E [] cs else w # split_acc E [] cs)
      else split_acc E (w @ [c]) cs)"

definition py_split :: "py_env \<Rightarrow> str \<Rightarrow> str list" where
  "py_split E s = split_acc E [] s"

text \<open>\<open>' '.join(words)\<close>.\<close>

fun py_join :: "str list \<Rightarrow> str" where
  "py_join [] = []"
| "py_join [w] = w"
| "py_join (w # v # ws) = w @ 32 # py_join (v # ws)"

text \<open>
  \<open>str.title()\<close> goes through the text once. A character that follows a cased character
  is replaced by its lower-case form, every other character by its title-case form.
  \<open>title_from E s i previous_is_cased cs\<close> is the result for the characters \<open>cs\<close> that
  start at index \<open>i\<close> of \<open>s\<close>.
\<close>

fun title_from :: "py_env \<Rightarrow> str \<Rightarrow> nat \<Rightarrow> bool \<Rightarrow> str \<Rightarrow> str" where
  "title_from E s i previous_is_cased [] = []"
| "title_from E s i previous_is_cased (c # cs) =
     (if previous_is_cased then lower_at E s i c else title_of E c)
     @ title_from E s (Suc i) (py_iscased E c) cs"

definition py_title :: "py_env \<Rightarrow> str \<Rightarrow> str" where
  "py_title E s = title_from E s 0 False s"

definition normalized_name :: "py_env \<Rightarrow> str \<Rightarrow> str" where
  "normalized_name E raw = py_title E (py_join (py_split E raw))"

definition name_char :: "py_env \<Rightarrow> nat \<Rightarrow> bool" where
  "name_char E ind = (py_isalpha E ind \<or> py_isspace E ind \<or> ind = 45 \<or> ind = 39)"

text \<open>
  \<open>check_input\<close> applied to the line that \<open>input\<close> returned: the cleaned name, or \<open>None\<close>
  (after which the caller prints \<open>Enter valid student name!\<close>).
\<close>

definition check_input :: "py_env \<Rightarrow> str \<Rightarrow> str option" where
  "check_input E raw =
     (let name = normalized_name E raw
      in if name = [] \<or> \<not> list_all (name_char E) name then None else Some name)"

subsection \<open>Floating point\<close>

text \<open>
  A binary64 number is a rational \<open>m * 2 ^ p\<close> with \<open>\<bar>m\<bar> < 2 ^ 53\<close> and \<open>p \<ge> -1074\<close>.
  \<open>binary64 q\<close> is the one nearest to \<open>q\<close>, ties to the even significand. The exponent
  range is not bounded above: a quotient of magnitude \<open>2 ^ 1024\<close> or more, for which Python
  raises \<open>OverflowError\<close>, needs grades far outside \<open>0..100\<close> and is not modelled.
\<close>

definition round_half_even :: "rat \<Rightarrow> int" where
  "round_half_even y =
     (let f = \<lfloor>y\<rfloor>; r = y - of_int f
      in if r < 1 / 2 then f else if 1 / 2 < r then f + 1 else if even f then f else f + 1)"

text \<open>\<open>ilog2 q\<close> is the integer \<open>e\<close> with \<open>2 ^ e \<le> q < 2 ^ (e + 1)\<close>, for \<open>q > 0\<close>.\<close>

definition ilog2 :: "rat \<Rightarrow> int" where
  "ilog2 q =
     (let (a, b) = quotient_of q; d = bitlen a - bitlen b
      in if 2 powi d \<le> q then d else d - 1)"

definition ulp_exponent :: "rat \<Rightarrow> int" where
  "ulp_exponent q = max (ilog2 \<bar>q\<bar> - 52) (- 1074)"

definition binary64 :: "rat \<Rightarrow> rat" where
  "binary64 q =
     (if q = 0 then 0
      else of_int (round_half_even (q / 2 powi ulp_exponent q)) * 2 powi ulp_exponent q)"

datatype py_error = ZeroDivisionError | ValueError | EOFError

text \<open>\<open>a / b\<close> on integers: the correctly rounded quotient.\<close>

definition py_truediv :: "int \<Rightarrow> int \<Rightarrow> py_error + rat" where
  "py_truediv a b = (if b = 0 then Inl ZeroDivisionError else Inr (binary64 (of_int a / of_int b)))"

text \<open>\<open>x / n\<close> for a float \<open>x\<close> and an integer \<open>n\<close>.\<close>

definition py_fdiv :: "rat \<Rightarrow> int \<Rightarrow> py_error + rat" where
  "py_fdiv x n = (if n = 0 then Inl ZeroDivisionError else Inr (binary64 (x / of_int n)))"

text \<open>
  \<open>round(x, 1)\<close> on a float: the exact value of \<open>x\<close> is rounded to one decimal place, ties
  to the even digit, and the decimal result is converted to the nearest binary64 number.
\<close>

definition py_round1 :: "rat \<Rightarrow> rat" where
  "py_round1 x = binary64 (of_int (round_half_even (x * 10)) / 10)"

text \<open>
  \<open>sum\<close> over floats, accumulating from the left with one rounding per addition.
  (Interpreters from 3.12 on carry a compensation term as well.)
\<close>

definition py_sum :: "rat list \<Rightarrow> rat" where
  "py_sum xs = foldl (\<lambda>acc x. binary64 (acc + x)) 0 xs"

text \<open>\<open>max\<close> and \<open>min\<close> of a list of floats; \<open>ValueError\<close> on the empty list.\<close>

definition py_max :: "rat list \<Rightarrow> py_error + rat" where
  "py_max xs = (case xs of [] \<Rightarrow> Inl ValueError
                | x # r \<Rightarrow> Inr (foldl (\<lambda>m v. if m < v then v else m) x r))"

definition py_min :: "rat list \<Rightarrow> py_error + rat" where
  "py_min xs = (case xs of [] \<Rightarrow> Inl ValueError
                | x # r \<Rightarrow> Inr (foldl (\<lambda>m v. if v < m then v else m) x r))"

text \<open>
  The text of a float in an f-string, for the floats this program prints: each is a result
  of \<open>round(_, 1)\<close>, hence the double nearest to a decimal with one digit after the point,
  and its shortest representation is that decimal. (A negative value that rounds to zero
  prints as \<open>-0.0\<close> in Python; it cannot arise from grades in \<open>0..100\<close>.)
\<close>

fun show_nat :: "nat \<Rightarrow> str" where
  "show_nat n = (if n < 10 then [48 + n] else show_nat (n div 10) @ [48 + n mod 10])"

definition py_repr1 :: "rat \<Rightarrow> str" where
  "py_repr1 x =
     (let k = round_half_even (x * 10)
      in (if k < 0 then [45] else []) @ show_nat (nat \<bar>k\<bar> div 10) @ [46]
         @ show_nat (nat \<bar>k\<bar> mod 10))"

subsection \<open>The roster and the console\<close>

text \<open>A student is the dictionary \<open>{"name": ..., "grades": [...]}\<close>.\<close>

record student =
  name :: str
  grades :: "int list"

datatype event = Print str | Prompt str

datatype status = Returned | Raised py_error

text \<open>
  What a procedure that reads input leaves behind: how it ended, the global list
  \<open>students\<close>, the lines not yet read, and what it wrote.
\<close>

record run =
  status :: status
  students :: "student list"
  pending :: "str list"
  console :: "event list"

definition emit :: "event list \<Rightarrow> run \<Rightarrow> run" where
  "emit evs res = res\<lparr>console := evs @ console res\<rparr>"

fun find_student :: "str \<Rightarrow> student list \<Rightarrow> student option" where
  "find_student nm [] = None"
| "find_student nm (s # ss) = (if name s = nm then Some s else find_student nm ss)"

definition name_prompt :: event where
  "name_prompt = Prompt (lit ''Enter student name: '')"

definition invalid_name_msg :: event where
  "invalid_name_msg = Print (lit ''Enter valid student name! '')"

definition duplicate_msg :: "str \<Rightarrow> event" where
  "duplicate_msg nm = Print (lit ''The name '' @ nm @ lit '' already exists.'')"

text \<open>
  \<open>add_student\<close>: one iteration of its \<open>while True\<close> loop per line read. A found record
  is a dictionary with two keys, hence true in a condition.
\<close>

fun add_student :: "py_env \<Rightarrow> student list \<Rightarrow> str list \<Rightarrow> run" where
  "add_student E r [] =
     \<lparr>status = Raised EOFError, students = r, pending = [], console = [name_prompt]\<rparr>"
| "add_student E r (line # ls) =
     (case check_input E line of
        None \<Rightarrow> emit [name_prompt, invalid_name_msg] (add_student E r ls)
      | Some nm \<Rightarrow>
          (case find_student nm r of
             Some s \<Rightarrow> emit [name_prompt, duplicate_msg nm] (add_student E r ls)
           | None \<Rightarrow>
               \<lparr>status = Returned, students = r @ [\<lparr>name = nm, grades = []\<rparr>],
                pending = ls, console = [name_prompt]\<rparr>))"

text \<open>
  \<open>find_student\<close> returns the first record with the name, and \<open>add_grades\<close> appends to
  the list of that very record: \<open>append_grade\<close> is the update of the global list.
\<close>

fun append_grade :: "str \<Rightarrow> int \<Rightarrow> student list \<Rightarrow> student list" where
  "append_grade nm v [] = []"
| "append_grade nm v (s # ss) =
     (if name s = nm then s\<lparr>grades := grades s @ [v]\<rparr> # ss else s # append_grade nm v ss)"

definition grade_prompt :: event where
  "grade_prompt =
     Prompt (lit ''Enter a grade(or '' @ [39] @ lit ''done'' @ [39] @ lit '' to finish): '')"

definition invalid_grade_msg :: event where
  "invalid_grade_msg =
     Print (lit ''Invalid input. Please enter a number (or '' @ [39] @ lit ''done'' @ [39]
            @ lit ''): '')"

definition not_found_msg :: "str \<Rightarrow> event" where
  "not_found_msg nm =
     Print (lit ''The student '' @ [39] @ nm @ [39] @ lit '' is not found.'')"

text \<open>The inner loop of \<open>add_grades\<close>, for the student found under the name \<open>nm\<close>.\<close>

fun enter_grades :: "py_env \<Rightarrow> str \<Rightarrow> student list \<Rightarrow> str list \<Rightarrow> run" where
  "enter_grades E nm r [] =
     \<lparr>status = Raised EOFError, students = r, pending = [], console = [grade_prompt]\<rparr>"
| "enter_grades E nm r (grade # ls) =
     (case valid_input E grade of
        Done \<Rightarrow> \<lparr>status = Returned, students = r, pending = ls, console = [grade_prompt]\<rparr>
      | Grade v \<Rightarrow> emit [grade_prompt] (enter_grades E nm (append_grade nm v r) ls)
      | Invalid \<Rightarrow> emit [grade_prompt, invalid_grade_msg] (enter_grades E nm r ls))"

fun add_grades :: "py_env \<Rightarrow> student list \<Rightarrow> str list \<Rightarrow> run" where
  "add_grades E r [] =
     \<lparr>status = Raised EOFError, students = r, pending = [], console = [name_prompt]\<rparr>"
| "add_grades E r (line # ls) =
     (case check_input E line of
        None \<Rightarrow> emit [name_prompt, invalid_name_msg] (add_grades E r ls)
      | Some nm \<Rightarrow>
          (case find_student nm r of
             None \<Rightarrow>
               \<lparr>status = Returned, students = r, pending = ls,
                console = [name_prompt, not_found_msg nm]\<rparr>
           | Some s \<Rightarrow> emit [name_prompt] (enter_grades E nm r ls)))"

subsection \<open>Reports\<close>

text \<open>The expression \<open>sum(grades) / len(grades)\<close>.\<close>

definition mean_key :: "student \<Rightarrow> py_error + rat" where
  "mean_key s = py_truediv (sum_list (grades s)) (int (length (grades s)))"

definition average_line :: "str \<Rightarrow> rat \<Rightarrow> event" where
  "average_line nm average_grade =
     Print (nm @ [39] @ lit ''s average grade is '' @ py_repr1 average_grade @ [46])"

definition na_line :: "str \<Rightarrow> event" where
  "na_line nm = Print (nm @ [39] @ lit ''s average grade is N/A.'')"

text \<open>
  The loop of \<open>show_report\<close>: the lines printed and the list \<open>averages\<close>. The only error
  the division raises is \<open>ZeroDivisionError\<close>, which the loop body catches.
\<close>

fun report_students :: "student list \<Rightarrow> event list \<times> rat list" where
  "report_students [] = ([], [])"
| "report_students (s # ss) =
     (let (evs, averages) = report_students ss
      in case mean_key s of
           Inr m \<Rightarrow> (average_line (name s) (py_round1 m) # evs, py_round1 m # averages)
         | Inl e \<Rightarrow> (na_line (name s) # evs, averages))"

definition show_report :: "student list \<Rightarrow> py_error + event list" where
  "show_report r =
     (if r = [] then Inr [Print (lit ''No students available.'')]
      else
        let (evs, averages) = report_students r
        in if averages \<noteq> [] then
             (case py_max averages of Inl e \<Rightarrow> Inl e | Inr mx \<Rightarrow>
              case py_min averages of Inl e \<Rightarrow> Inl e | Inr mn \<Rightarrow>
              case py_fdiv (py_sum averages) (int (length averages)) of Inl e \<Rightarrow> Inl e | Inr mean \<Rightarrow>
                Inr (Print (lit ''-----Student Report-----'') # evs @
                     [Print (lit ''-------------------------''),
                      Print (lit ''Max average: '' @ py_repr1 (py_round1 mx)),
                      Print (lit ''Min average: '' @ py_repr1 (py_round1 mn)),
                      Print (lit ''Overall average: '' @ py_repr1 (py_round1 mean))]))
           else Inr (Print (lit ''-----Student Report-----'') # evs @
                     [Print (lit ''No grades available for summary.'')]))"

text \<open>
  \<open>max(items, key=f)\<close>: the keys are computed in order, and the item kept changes only
  when a key is strictly greater than the greatest so far.
\<close>

fun max_from :: "('a \<Rightarrow> py_error + rat) \<Rightarrow> 'a \<Rightarrow> rat \<Rightarrow> 'a list \<Rightarrow> py_error + 'a" where
  "max_from f best kbest [] = Inr best"
| "max_from f best kbest (x # xs) =
     (case f x of
        Inl e \<Rightarrow> Inl e
      | Inr k \<Rightarrow> if kbest < k then max_from f x k xs else max_from f best kbest xs)"

definition py_max_key :: "('a \<Rightarrow> py_error + rat) \<Rightarrow> 'a list \<Rightarrow> py_error + 'a" where
  "py_max_key f xs =
     (case xs of
        [] \<Rightarrow> Inl ValueError
      | x # r \<Rightarrow> (case f x of Inl e \<Rightarrow> Inl e | Inr k \<Rightarrow> max_from f x k r))"

definition students_with_grades :: "student list \<Rightarrow> student list" where
  "students_with_grades r = filter (\<lambda>s. grades s \<noteq> []) r"

definition top_line :: "str \<Rightarrow> rat \<Rightarrow> event" where
  "top_line nm average_grade =
     Print (lit ''The student with the highest average is '' @ nm @ lit '' with a grade of ''
            @ py_repr1 average_grade)"

definition find_top_performer :: "student list \<Rightarrow> py_error + event list" where
  "find_top_performer r =
     (if r = [] then Inr [Print (lit ''No students available.'')]
      else if students_with_grades r = [] then Inr [Print (lit ''No grades available'')]
      else
        case py_max_key mean_key (students_with_grades r) of
          Inl e \<Rightarrow> Inl e
        | Inr top_student \<Rightarrow>
            (case mean_key top_student of
               Inl e \<Rightarrow> Inl e
             | Inr m \<Rightarrow> Inr [top_line (name top_student) (py_round1 m)]))"

subsection \<open>Menu and main loop\<close>

definition printed :: "student list \<Rightarrow> str list \<Rightarrow> py_error + event list \<Rightarrow> run" where
  "printed r ls res =
     (case res of
        Inr evs \<Rightarrow> \<lparr>status = Returned, students = r, pending = ls, console = evs\<rparr>
      | Inl e \<Rightarrow> \<lparr>status = Raised e, students = r, pending = ls, console = []\<rparr>)"

definition menu :: "py_env \<Rightarrow> int \<Rightarrow> student list \<Rightarrow> str list \<Rightarrow> run" where
  "menu E select r ls =
     (if select = 1 then add_student E r ls
      else if select = 2 then add_grades E r ls
      else if select = 3 then printed r ls (show_report r)
      else if select = 4 then printed r ls (find_top_performer r)
      else if select = 5 then printed r ls (Inr [Print (lit ''Exiting program'')])
      else printed r ls (Inr []))"

definition menu_text :: "event list" where
  "menu_text =
     [Print (lit ''-----Student Grade Analyzer------''),
      Print (lit ''1. Add a new student''),
      Print (lit ''2. Add a grades for a student''),
      Print (lit ''3. Show report (all students)''),
      Print (lit ''4. Find top performer''),
      Print (lit ''5. Exit'')]"

definition choice_prompt :: event where
  "choice_prompt = Prompt (lit ''Enter your choice: '')"

definition range_msg :: event where
  "range_msg = Print (lit ''Enter number from 1 to 5: '')"

lemma pending_add_student: "length (pending (add_student E r ls)) \<le> length ls"
proof (induction ls)
  case Nil
  show ?case by simp
next
  case (Cons line ls)
  then show ?case
    by (simp add: emit_def split: option.splits)
qed

lemma pending_enter_grades: "length (pending (enter_grades E nm r ls)) \<le> length ls"
proof (induction ls arbitrary: r)
  case Nil
  show ?case by simp
next
  case (Cons grade ls)
  show ?case
    using Cons[of r] Cons[of "append_grade nm v r" for v]
    by (cases "valid_input E grade") (simp_all add: emit_def le_SucI)
qed

lemma pending_add_grades: "length (pending (add_grades E r ls)) \<le> length ls"
proof (induction ls)
  case Nil
  show ?case by simp
next
  case (Cons line ls)
  show ?case
  proof (cases "check_input E line")
    case None
    with Cons show ?thesis by (simp add: emit_def)
  next
    case (Some nm)
    then show ?thesis
      using pending_enter_grades[of E nm r ls]
      by (cases "find_student nm r") (simp_all add: emit_def)
  qed
qed

lemma pending_menu: "length (pending (menu E select r ls)) \<le> length ls"
  using pending_add_student[of E r ls] pending_add_grades[of E r ls]
  by (simp add: menu_def printed_def split: sum.splits)

text \<open>
  The main loop, one iteration per line read at the choice prompt. \<open>Returned\<close> is the
  \<open>break\<close> after choice 5; an exception raised inside an operation ends the program.
\<close>

function main_loop :: "py_env \<Rightarrow> student list \<Rightarrow> str list \<Rightarrow> run" where
  "main_loop E r [] =
     \<lparr>status = Raised EOFError, students = r, pending = [],
      console = menu_text @ [choice_prompt]\<rparr>"
| "main_loop E r (line # ls) =
     (case py_int E line of
        None \<Rightarrow> emit (menu_text @ [choice_prompt, range_msg]) (main_loop E r ls)
      | Some choice \<Rightarrow>
          if choice > 5 \<or> choice < 1
          then emit (menu_text @ [choice_prompt, range_msg]) (main_loop E r ls)
          else if status (menu E choice r ls) \<noteq> Returned \<or> choice = 5
          then emit (menu_text @ [choice_prompt]) (menu E choice r ls)
          else emit (menu_text @ [choice_prompt] @ console (menu E choice r ls))
                 (main_loop E (students (menu E choice r ls)) (pending (menu E choice r ls))))"
  by pat_completeness auto
termination
  by (relation "measure (\<lambda>(E, r, ls). length ls)")
     (auto simp: less_Suc_eq_le pending_menu)

subsection \<open>Derived notions used in the statements\<close>

text \<open>
  The key of \<open>find_top_performer\<close> and the first argument of \<open>round\<close> in \<open>show_report\<close>,
  for a student who has grades: the float \<open>sum(grades) / len(grades)\<close>.
\<close>

definition mean_value :: "student \<Rightarrow> rat" where
  "mean_value s = binary64 (of_int (sum_list (grades s)) / of_int (int (length (grades s))))"

text \<open>The value \<open>average_grade\<close> of \<open>show_report\<close> for a student who has grades.\<close>

definition student_average :: "student \<Rightarrow> rat" where
  "student_average s = py_round1 (mean_value s)"

text \<open>The arithmetic mean of a list of grades, as a rational number.\<close>

definition exact_mean :: "int list \<Rightarrow> rat" where
  "exact_mean gs = of_int (sum_list gs) / of_int (int (length gs))"

definition valid_grades :: "int list \<Rightarrow> bool" where
  "valid_grades gs = list_all (\<lambda>g. 0 \<le> g \<and> g \<le> 100) gs"

definition valid_roster :: "student list \<Rightarrow> bool" where
  "valid_roster r = list_all (\<lambda>s. valid_grades (grades s)) r"

text \<open>The number of tenths that a float shows when printed with one decimal.\<close>

definition tenths :: "rat \<Rightarrow> int" where
  "tenths x = round_half_even (x * 10)"

text \<open>The decimal text of \<open>k / 10\<close> for \<open>k \<ge> 0\<close>, one digit after the point.\<close>

definition decimal1 :: "int \<Rightarrow> str" where
  "decimal1 k = show_nat (nat k div 10) @ [46] @ show_nat (nat k mod 10)"

text \<open>
  Two raw inputs that differ only by letter case or by extra white space: the least
  equivalence that relates a text to the text with one letter in the other case, with one
  white-space character more at either end or next to a white-space character, or with one
  white-space character replaced by another. Two characters are the same letter, in
  whatever case, when they have the same title-case form. The parameter \<open>A\<close> is the
  alphabet of the texts in which the case of a letter is changed: every character of such
  a text satisfies \<open>A\<close>.
\<close>

inductive name_variant :: "py_env \<Rightarrow> (nat \<Rightarrow> bool) \<Rightarrow> str \<Rightarrow> str \<Rightarrow> bool"
  for E :: py_env and A :: "nat \<Rightarrow> bool" where
  same: "name_variant E A a a"
| letter_case: "title_of E c = title_of E d \<Longrightarrow> list_all A (u @ c # d # v) \<Longrightarrow>
     name_variant E A (u @ c # v) (u @ d # v)"
| leading_space: "py_isspace E c \<Longrightarrow> name_variant E A a (c # a)"
| trailing_space: "py_isspace E c \<Longrightarrow> name_variant E A a (a @ [c])"
| inner_space: "py_isspace E c \<Longrightarrow> py_isspace E d \<Longrightarrow>
     name_variant E A (u @ d # v) (u @ c # d # v)"
| other_space: "py_isspace E c \<Longrightarrow> py_isspace E d \<Longrightarrow>
     name_variant E A (u @ c # v) (u @ d # v)"
| sym: "name_variant E A a b \<Longrightarrow> name_variant E A b a"
| trans: "name_variant E A a b \<Longrightarrow> name_variant E A b c \<Longrightarrow> name_variant E A a c"

text \<open>The alphabet of all characters.\<close>

definition any_char :: "nat \<Rightarrow> bool" where
  "any_char c = True"

text \<open>
  A database with four letters beyond ASCII, each with the entries it has in the Unicode
  character database: U+0130 (capital I with dot above), U+0131 (small dotless i), U+015E
  and U+015F (capital and small s with cedilla). Every other code point from 128 on is
  taken as an uncased symbol that is neither a letter, a digit nor white space. The
  upper-case and title-case form of U+0131 is the ASCII letter \<open>I\<close>, whose lower-case form
  is the ASCII letter \<open>i\<close>.
\<close>

definition turkish_letters :: py_env where
  "turkish_letters =
     \<lparr>db_alpha = (\<lambda>c. c = 0x130 \<or> c = 0x131 \<or> c = 0x15E \<or> c = 0x15F),
      db_space = (\<lambda>c. False),
      db_cased = (\<lambda>c. c = 0x130 \<or> c = 0x131 \<or> c = 0x15E \<or> c = 0x15F),
      db_title = (\<lambda>c. if c = 0x131 then [0x49] else if c = 0x15F then [0x15E] else [c]),
      db_lower = (\<lambda>s i. if length s \<le> i then []
                        else if s ! i = 0x130 then [0x69, 0x307]
                        else if s ! i = 0x15E then [0x15F]
                        else [s ! i]),
      db_decimal = (\<lambda>c. None),
      int_max_str_digits = 4300\<rparr>"

text \<open>
  The rosters the program can hold: the empty list it starts with, and the list left by
  any operation of the menu, run on any input (also on one that ends in the middle of the
  operation).
\<close>

inductive reachable :: "py_env \<Rightarrow> student list \<Rightarrow> bool" for E :: py_env where
  initial: "reachable E []"
| operation: "reachable E r \<Longrightarrow> reachable E (students (menu E select r ls))"

text \<open>
  The lines for which the main loop prints the range message: those \<open>int\<close> rejects, and
  those it parses to a number below 1 or above 5.
\<close>

definition invalid_choice :: "py_env \<Rightarrow> str \<Rightarrow> bool" where
  "invalid_choice E line = (case py_int E line of None \<Rightarrow> True | Some c \<Rightarrow> c > 5 \<or> c < 1)"

text \<open>The line \<open>show_report\<close> prints for one student.\<close>

definition student_line :: "student \<Rightarrow> event" where
  "student_line s =
     (if grades s = [] then na_line (name s)
      else average_line (name s) (student_average s))"

text \<open>The float \<open>sum(averages) / len(averages)\<close>, for a list that is not empty.\<close>

definition float_mean :: "rat list \<Rightarrow> rat" where
  "float_mean xs = binary64 (py_sum xs / of_int (int (length xs)))"

text \<open>The arithmetic mean of the averages as they are shown, with one decimal each.\<close>

definition shown_mean :: "rat list \<Rightarrow> rat" where
  "shown_mean xs = (of_int (sum_list (map tenths xs)) / 10) / of_int (int (length xs))"

section \<open>Properties\<close>

subsection \<open>Grade validator\<close>

lemma valid_input_examples:
  "valid_input E (lit ''101'') = Invalid" "valid_input E (lit ''-1'') = Invalid"
  "valid_input E (lit ''abc'') = Invalid"
  "valid_input E (lit ''100'') = Grade 100" "valid_input E (lit ''0'') = Grade 0"
  "valid_input E (lit ''done'') = Done" "valid_input E (lit ''DONE'') = Done"
  "valid_input E (lit ''Done'') = Done"
  by code_simp+

lemma ascii_lower_d:
  "ascii_lower a = 100 \<Longrightarrow> \<not> c_isspace a \<and> a \<noteq> 43 \<and> a \<noteq> 45 \<and> \<not> int_body a"
  by (auto simp: ascii_lower_def ascii_isupper_def c_isspace_def int_body_def ascii_isdigit_def
           split: if_splits)

lemma ascii_lower_ascii: "ascii (ascii_lower c) \<Longrightarrow> ascii c"
  by (simp add: ascii_def ascii_lower_def split: if_splits)

lemma lowered_ascii: "list_all ascii (map ascii_lower s) \<Longrightarrow> list_all ascii s"
  by (induction s) (simp_all add: ascii_lower_ascii)

lemma lit_done: "lit ''done'' = [100, 111, 110, 101]"
  by (simp add: lit_def)

lemma done_not_int: "py_lower s = lit ''done'' \<Longrightarrow> py_int E s = None"
proof -
  assume d: "py_lower s = lit ''done''"
  then obtain a r where s: "s = a # r" and l: "ascii_lower a = 100"
    by (cases s) (auto simp: py_lower_def lit_done)
  have "list_all ascii (map ascii_lower s)"
    using d by (simp add: py_lower_def lit_done ascii_def)
  then have "list_all ascii s" by (rule lowered_ascii)
  then have t: "int_text E (a # r) = a # r" unfolding s by (simp add: int_text_def)
  from ascii_lower_d[OF l] show ?thesis
    unfolding s by (simp add: t py_int_def split_sign_def)
qed

text \<open>
  C6. The grade validator puts every text into exactly one of three classes. It answers
  \<open>Done\<close> exactly for the texts whose lower-case form is \<open>done\<close>; it answers \<open>Grade v\<close>
  exactly when \<open>int\<close> parses the text to \<open>v\<close> and \<open>0 \<le> v \<le> 100\<close> (such a text is never
  the sentinel); it answers \<open>Invalid\<close> in every other case. The texts \<open>101\<close>, \<open>-1\<close> and
  \<open>abc\<close> are invalid, \<open>100\<close> and \<open>0\<close> are grades, and \<open>done\<close>, \<open>DONE\<close>, \<open>Done\<close> are the
  sentinel.
\<close>

theorem valid_input_classifies:
  "(valid_input E s = Done \<longleftrightarrow> py_lower s = lit ''done'')
   \<and> (valid_input E s = Grade v \<longleftrightarrow> py_int E s = Some v \<and> 0 \<le> v \<and> v \<le> 100)
   \<and> (valid_input E s = Invalid \<longleftrightarrow>
        py_lower s \<noteq> lit ''done''
        \<and> (case py_int E s of None \<Rightarrow> True | Some w \<Rightarrow> w < 0 \<or> 100 < w))
   \<and> valid_input E (lit ''101'') = Invalid \<and> valid_input E (lit ''-1'') = Invalid
   \<and> valid_input E (lit ''abc'') = Invalid
   \<and> valid_input E (lit ''100'') = Grade 100 \<and> valid_input E (lit ''0'') = Grade 0
   \<and> valid_input E (lit ''done'') = Done \<and> valid_input E (lit ''DONE'') = Done
   \<and> valid_input E (lit ''Done'') = Done"
proof -
  have 1: "valid_input E s = Done \<longleftrightarrow> py_lower s = lit ''done''"
    by (simp add: valid_input_def split: option.splits)
  have 2: "valid_input E s = Grade v \<longleftrightarrow> py_int E s = Some v \<and> 0 \<le> v \<and> v \<le> 100"
    using done_not_int[of s E] by (auto simp: valid_input_def split: option.splits)
  have 3: "valid_input E s = Invalid \<longleftrightarrow>
        py_lower s \<noteq> lit ''done''
        \<and> (case py_int E s of None \<Rightarrow> True | Some w \<Rightarrow> w < 0 \<or> 100 < w)"
    by (auto simp: valid_input_def split: option.splits)
  show ?thesis using 1 2 3 valid_input_examples[of E] by blast
qed

theorem valid_input_classifies_witness:
  "valid_input turkish_letters (lit ''42'') = Grade 42
   \<and> py_int turkish_letters (lit ''42'') = Some 42
   \<and> valid_input turkish_letters (lit '' +0_7 '') = Grade 7
   \<and> valid_input turkish_letters (lit ''1__0'') = Invalid
   \<and> valid_input turkish_letters (lit ''dOnE'') = Done
   \<and> valid_input turkish_letters (lit '' done'') = Invalid
   \<and> valid_input turkish_letters [53, 0x130] = Invalid"
proof -
  have c: "py_int turkish_letters (lit ''42'') = Some 42"
    "valid_input turkish_letters (lit '' +0_7 '') = Grade 7"
    "valid_input turkish_letters (lit ''1__0'') = Invalid"
    "valid_input turkish_letters (lit ''dOnE'') = Done"
    "valid_input turkish_letters (lit '' done'') = Invalid"
    "valid_input turkish_letters [53, 0x130] = Invalid"
    by code_simp+
  note t = valid_input_classifies[of turkish_letters "lit ''42''" 42, THEN conjunct2, THEN conjunct1]
  have g: "valid_input turkish_letters (lit ''42'') = Grade 42"
    unfolding t using c(1) by simp
  show ?thesis by (intro conjI g c)
qed

subsection \<open>Selection of the top performer\<close>

lemma mean_key_value: "grades s \<noteq> [] \<Longrightarrow> mean_key s = Inr (mean_value s)"
  by (simp add: mean_key_def mean_value_def py_truediv_def)

lemma max_from_first_greatest:
  assumes "\<forall>x\<in>set xs. f x = Inr (g x)"
  shows "\<exists>pre t post. b # xs = pre @ t # post \<and> max_from f b (g b) xs = Inr t
           \<and> (\<forall>x\<in>set pre. g x < g t) \<and> (\<forall>x\<in>set post. g x \<le> g t)"
  using assms
proof (induction xs arbitrary: b)
  case Nil
  have "[b] = [] @ b # []" by simp
  then show ?case by force
next
  case (Cons x xs)
  have fx: "f x = Inr (g x)" using Cons.prems by simp
  have rest: "\<forall>y\<in>set xs. f y = Inr (g y)" using Cons.prems by simp
  show ?case
  proof (cases "g b < g x")
    case True
    from Cons.IH[OF rest, of x] obtain pre t post where
      d: "x # xs = pre @ t # post" and m: "max_from f x (g x) xs = Inr t"
      and lo: "\<forall>y\<in>set pre. g y < g t" and hi: "\<forall>y\<in>set post. g y \<le> g t"
      by blast
    have "x \<in> set (pre @ t # post)" using d by (metis list.set_intros(1))
    then have "g x \<le> g t" using lo hi by auto
    then have "g b < g t" using True by simp
    then have lo': "\<forall>y\<in>set (b # pre). g y < g t" using lo by simp
    have "b # x # xs = (b # pre) @ t # post" using d by simp
    moreover have "max_from f b (g b) (x # xs) = Inr t" using fx True m by simp
    ultimately show ?thesis using lo' hi by blast
  next
    case False
    from Cons.IH[OF rest, of b] obtain pre t post where
      d: "b # xs = pre @ t # post" and m: "max_from f b (g b) xs = Inr t"
      and lo: "\<forall>y\<in>set pre. g y < g t" and hi: "\<forall>y\<in>set post. g y \<le> g t"
      by blast
    have m': "max_from f b (g b) (x # xs) = Inr t" using fx False m by simp
    show ?thesis
    proof (cases pre)
      case Nil
      then have tb: "t = b" and p: "post = xs" using d by simp_all
      have "b # x # xs = [] @ t # (x # post)" using tb p by simp
      moreover have "\<forall>y\<in>set (x # post). g y \<le> g t" using hi False tb by auto
      ultimately show ?thesis using m' by (metis empty_iff empty_set)
    next
      case (Cons p pre')
      then have pb: "p = b" and xs: "xs = pre' @ t # post" using d by simp_all
      have "g b < g t" using lo Cons pb by simp
      then have "g x < g t" using False by simp
      then have lo': "\<forall>y\<in>set (b # x # pre'). g y < g t" using lo Cons pb by simp
      have "b # x # xs = (b # x # pre') @ t # post" using xs by simp
      then show ?thesis using m' lo' hi by blast
    qed
  qed
qed

lemma students_with_grades_keys:
  "\<forall>s\<in>set (students_with_grades r). mean_key s = Inr (mean_value s)"
  by (simp add: students_with_grades_def mean_key_value)

lemma find_top_performer_selects:
  assumes "students_with_grades r \<noteq> []"
  shows "\<exists>pre t post. students_with_grades r = pre @ t # post
           \<and> (\<forall>s\<in>set pre. mean_value s < mean_value t)
           \<and> (\<forall>s\<in>set post. mean_value s \<le> mean_value t)
           \<and> find_top_performer r = Inr [top_line (name t) (py_round1 (mean_value t))]"
proof -
  from assms obtain b xs where w: "students_with_grades r = b # xs"
    by (cases "students_with_grades r") auto
  have keys: "\<forall>s\<in>set (b # xs). mean_key s = Inr (mean_value s)"
    using students_with_grades_keys[of r] w by simp
  then have kx: "\<forall>s\<in>set xs. mean_key s = Inr (mean_value s)" by simp
  from max_from_first_greatest[OF kx, of b] obtain pre t post where
    d: "b # xs = pre @ t # post" and m: "max_from mean_key b (mean_value b) xs = Inr t"
    and lo: "\<forall>y\<in>set pre. mean_value y < mean_value t"
    and hi: "\<forall>y\<in>set post. mean_value y \<le> mean_value t"
    by blast
  have "t \<in> set (b # xs)" using d by simp
  then have kt: "mean_key t = Inr (mean_value t)" using keys by blast
  have kb: "mean_key b = Inr (mean_value b)" using keys by simp
  have rne: "r \<noteq> []" using assms by (auto simp: students_with_grades_def)
  have "find_top_performer r = Inr [top_line (name t) (py_round1 (mean_value t))]"
    using rne w m kt kb by (simp add: find_top_performer_def py_max_key_def)
  then show ?thesis using d w lo hi by metis
qed

lemma ann_bo:
  "find_top_performer [\<lparr>name = lit ''Ann'', grades = [90, 100]\<rparr>, \<lparr>name = lit ''Bo'', grades = [95, 95]\<rparr>]
     = Inr [Print (lit ''The student with the highest average is Ann with a grade of 95.0'')]"
  by code_simp

subsection \<open>Rounding to binary64 and to one decimal\<close>

lemma rhe_error: "\<bar>of_int (round_half_even y) - y\<bar> \<le> 1 / 2"
proof -
  have "of_int \<lfloor>y\<rfloor> \<le> y" "y < of_int \<lfloor>y\<rfloor> + 1" by linarith+
  then show ?thesis
    by (auto simp: round_half_even_def Let_def abs_le_iff)
qed

lemma rhe_unique:
  assumes "\<bar>y - of_int k\<bar> < 1 / 2"
  shows "round_half_even y = k"
proof -
  have e: "\<bar>of_int (round_half_even y) - y\<bar> \<le> 1 / 2" by (rule rhe_error)
  have "\<bar>(of_int (round_half_even y) :: rat) - of_int k\<bar> < 1" using assms e by linarith
  then have "\<bar>(of_int (round_half_even y - k) :: rat)\<bar> < 1" by simp
  then have "\<bar>round_half_even y - k\<bar> < 1"
    by (metis of_int_abs of_int_less_1_iff)
  then show ?thesis by linarith
qed

lemma powi_nat: "0 \<le> n \<Longrightarrow> (2::rat) powi n = 2 ^ nat n"
  by (simp add: power_int_def)

lemma ilog2_lower:
  assumes "0 < q"
  shows "2 powi (ilog2 q) \<le> q"
proof -
  obtain a b where ab: "quotient_of q = (a, b)" by (cases "quotient_of q")
  have bpos: "0 < b" using ab by (rule quotient_of_denom_pos)
  have q: "q = of_int a / of_int b" using ab by (rule quotient_of_div)
  have apos: "0 < a" using assms q bpos by (simp add: zero_less_divide_iff)
  define d where "d = bitlen a - bitlen b"
  show ?thesis
  proof (cases "2 powi d \<le> q")
    case True
    then show ?thesis using ab by (simp add: ilog2_def d_def)
  next
    case False
    then have il: "ilog2 q = d - 1" using ab by (simp add: ilog2_def d_def)
    have la: "1 \<le> bitlen a" and lb: "1 \<le> bitlen b"
      using apos bpos by (simp_all add: bitlen_def floorlog_def)
    have a_lo: "(2::int) ^ nat (bitlen a - 1) \<le> a" using bitlen_bounds[OF apos] by simp
    have b_hi: "b < (2::int) ^ nat (bitlen b)" using bitlen_bounds[OF bpos] by simp
    have a_lo': "(2::rat) powi (bitlen a - 1) \<le> of_int a"
    proof -
      have "(of_int ((2::int) ^ nat (bitlen a - 1)) :: rat) \<le> of_int a"
        using a_lo by (simp only: of_int_le_iff)
      then show ?thesis using la by (simp add: powi_nat)
    qed
    have b_hi': "(of_int b :: rat) \<le> 2 powi (bitlen b)"
    proof -
      have "(of_int b :: rat) < of_int ((2::int) ^ nat (bitlen b))"
        using b_hi by (simp only: of_int_less_iff)
      then show ?thesis using lb by (simp add: powi_nat)
    qed
    have bq: "(0::rat) < of_int b" using bpos by simp
    have e: "d - 1 = (bitlen a - 1) - bitlen b" by (simp add: d_def)
    have "(2::rat) powi (d - 1) = 2 powi (bitlen a - 1) / 2 powi (bitlen b)"
      unfolding e by (rule power_int_diff) simp
    also have "\<dots> \<le> of_int a / 2 powi (bitlen b)"
      using a_lo' by (simp add: divide_right_mono)
    also have "\<dots> \<le> of_int a / of_int b"
      using b_hi' bq apos by (simp add: divide_left_mono)
    finally show ?thesis using il q by simp
  qed
qed

lemma ilog2_less:
  assumes "0 < q" "q < 2 powi k"
  shows "ilog2 q < k"
proof (rule ccontr)
  assume "\<not> ilog2 q < k"
  then have "k \<le> ilog2 q" by simp
  then have "(2::rat) powi k \<le> 2 powi (ilog2 q)"
    by (simp add: power_int_increasing)
  then show False using ilog2_lower[OF assms(1)] assms(2) by linarith
qed

lemma binary64_error:
  assumes "\<bar>q\<bar> < 2 powi k" and "- 1021 \<le> k"
  shows "\<bar>binary64 q - q\<bar> \<le> 2 powi (k - 54)"
proof (cases "q = 0")
  case True
  then show ?thesis by (simp add: binary64_def)
next
  case False
  define p where "p = ulp_exponent q"
  have pos: "(0::rat) < 2 powi p" by (simp add: zero_less_power_int)
  have "ilog2 \<bar>q\<bar> < k" using False assms(1) by (intro ilog2_less) simp_all
  then have pk: "p \<le> k - 53" using assms(2) by (simp add: p_def ulp_exponent_def)
  define y where "y = q / 2 powi p"
  have qy: "q = y * 2 powi p" using pos by (simp add: y_def)
  have b: "binary64 q = of_int (round_half_even y) * 2 powi p"
    using False by (simp add: binary64_def p_def y_def)
  have "binary64 q - q = (of_int (round_half_even y) - y) * 2 powi p"
    by (simp only: b) (simp add: qy[symmetric] algebra_simps)
  then have "\<bar>binary64 q - q\<bar> = \<bar>of_int (round_half_even y) - y\<bar> * 2 powi p"
    using pos by (simp add: abs_mult)
  also have "\<dots> \<le> (1 / 2) * 2 powi p"
    using rhe_error[of y] pos by (simp add: mult_right_mono)
  also have "\<dots> = 2 powi (p - 1)" by (simp add: power_int_diff)
  also have "\<dots> \<le> 2 powi (k - 54)" using pk by (simp add: power_int_increasing)
  finally show ?thesis .
qed

lemma valid_grades_sum: "valid_grades gs \<Longrightarrow> 0 \<le> sum_list gs \<and> sum_list gs \<le> 100 * int (length gs)"
  by (induction gs) (auto simp: valid_grades_def)

lemma binary64_error_128:
  assumes "0 \<le> q" "q \<le> 100"
  shows "\<bar>binary64 q - q\<bar> \<le> 1 / 2 ^ 47"
proof -
  have "\<bar>q\<bar> < 2 powi 7" using assms by simp
  from binary64_error[OF this] have "\<bar>binary64 q - q\<bar> \<le> 2 powi (- 47)" by simp
  moreover have "(2::rat) powi (- 47) = 1 / 2 ^ 47"
    by (simp only: power_int_minus power_int_numeral inverse_eq_divide)
  ultimately show ?thesis by (simp only:)
qed

lemma exact_mean_range:
  assumes "valid_grades gs" "gs \<noteq> []"
  shows "0 \<le> exact_mean gs \<and> exact_mean gs \<le> 100"
proof -
  have n: "(0::rat) < of_int (int (length gs))" using assms(2) by simp
  from valid_grades_sum[OF assms(1)]
  have s: "0 \<le> sum_list gs" "sum_list gs \<le> 100 * int (length gs)" by simp_all
  have "(of_int (sum_list gs) :: rat) \<le> of_int (100 * int (length gs))"
    using s(2) by (simp only: of_int_le_iff)
  then have "(of_int (sum_list gs) :: rat) \<le> 100 * of_int (int (length gs))" by simp
  then have "exact_mean gs \<le> 100" using n by (simp add: exact_mean_def pos_divide_le_eq)
  moreover have "0 \<le> exact_mean gs" using s(1) by (simp add: exact_mean_def)
  ultimately show ?thesis by simp
qed

text \<open>A tenth that is not nearest to s/n is at least 1/(20 n) away from the boundary.\<close>

lemma tenth_gap:
  fixes s n k :: int
  assumes "0 < n" and "of_int k - 1 / 2 > (10::rat) * (of_int s / of_int n)"
  shows "(of_int s / of_int n :: rat) + 1 / (20 * of_int n) \<le> (2 * of_int k - 1) / 20"
proof -
  have n: "(0::rat) < of_int n" using assms(1) by simp
  have "(10::rat) * (of_int s / of_int n) * of_int n < (of_int k - 1 / 2) * of_int n"
    using assms(2) n by (rule mult_strict_right_mono)
  moreover have "(10::rat) * (of_int s / of_int n) * of_int n = 10 * of_int s"
    using n by simp
  ultimately have "(10::rat) * of_int s < (of_int k - 1 / 2) * of_int n" by (simp only:)
  then have "(20::rat) * of_int s < (2 * of_int k - 1) * of_int n" by (simp add: algebra_simps)
  then have "(of_int (20 * s) :: rat) < of_int ((2 * k - 1) * n)" by simp
  then have "20 * s < (2 * k - 1) * n" by (simp only: of_int_less_iff)
  then have "20 * s + 1 \<le> (2 * k - 1) * n" by simp
  then have "(of_int (20 * s + 1) :: rat) \<le> of_int ((2 * k - 1) * n)" by (simp only: of_int_le_iff)
  then have "(20::rat) * of_int s + 1 \<le> (2 * of_int k - 1) * of_int n" by simp
  then show ?thesis using n by (simp add: field_simps)
qed

lemma tenth_gap_up:
  fixes s n k :: int
  assumes "0 < n" and "of_int k + 1 / 2 < (10::rat) * (of_int s / of_int n)"
  shows "(2 * of_int k + 1) / 20 + 1 / (20 * of_int n) \<le> (of_int s / of_int n :: rat)"
proof -
  have n: "(0::rat) < of_int n" using assms(1) by simp
  have "(of_int k + 1 / 2) * of_int n < (10::rat) * (of_int s / of_int n) * of_int n"
    using assms(2) n by (rule mult_strict_right_mono)
  moreover have "(10::rat) * (of_int s / of_int n) * of_int n = 10 * of_int s"
    using n by simp
  ultimately have "(of_int k + 1 / 2) * of_int n < (10::rat) * of_int s" by (simp only:)
  then have "(2 * of_int k + 1) * of_int n < (20::rat) * of_int s" by (simp add: algebra_simps)
  then have "(of_int ((2 * k + 1) * n) :: rat) < of_int (20 * s)" by simp
  then have "(2 * k + 1) * n < 20 * s" by (simp only: of_int_less_iff)
  then have "(2 * k + 1) * n + 1 \<le> 20 * s" by simp
  then have "(of_int ((2 * k + 1) * n + 1) :: rat) \<le> of_int (20 * s)" by (simp only: of_int_le_iff)
  then have "(2 * of_int k + 1) * of_int n + 1 \<le> (20::rat) * of_int s" by simp
  then have "((2 * of_int k + 1) * of_int n + 1) / (20 * of_int n)
               \<le> ((20::rat) * of_int s) / (20 * of_int n)"
    using n by (intro divide_right_mono) simp_all
  moreover have "((2 * of_int k + 1) * of_int n + 1) / (20 * of_int n)
                   = (2 * of_int k + 1) / 20 + 1 / (20 * of_int n :: rat)"
    using n by (simp add: add_divide_distrib)
  moreover have "((20::rat) * of_int s) / (20 * of_int n) = of_int s / of_int n" by simp
  ultimately show ?thesis by (simp only:)
qed

lemma nearest_contr_down:
  fixes m x kk G E :: rat
  assumes "m + G \<le> (2 * kk - 1) / 20" "\<bar>x - m\<bar> \<le> E" "E < G" "\<bar>kk - x * 10\<bar> \<le> 1 / 2"
  shows False
proof -
  from assms(2) have "x - m \<le> E" "m - x \<le> E" by linarith+
  moreover from assms(4) have "kk - x * 10 \<le> 1 / 2" "x * 10 - kk \<le> 1 / 2"
    by linarith+
  moreover have "(2 * kk - 1) / 20 = kk / 10 - 1 / 20" by (simp add: diff_divide_distrib)
  ultimately show False using assms(1,3) by linarith
qed

lemma nearest_contr_up:
  fixes m x kk G E :: rat
  assumes "(2 * kk + 1) / 20 + G \<le> m" "\<bar>x - m\<bar> \<le> E" "E < G" "\<bar>kk - x * 10\<bar> \<le> 1 / 2"
  shows False
proof -
  from assms(2) have "x - m \<le> E" "m - x \<le> E" by linarith+
  moreover from assms(4) have "kk - x * 10 \<le> 1 / 2" "x * 10 - kk \<le> 1 / 2"
    by linarith+
  moreover have "(2 * kk + 1) / 20 = kk / 10 + 1 / 20" by (simp add: add_divide_distrib)
  ultimately show False using assms(1,3) by linarith
qed

lemma small_gap:
  fixes n :: int
  assumes "0 < n" "n < 2 ^ 40"
  shows "(1::rat) / 2 ^ 47 < 1 / (20 * of_int n)"
proof -
  have "20 * n < 2 ^ 47" using assms(2) by simp
  then have "(of_int (20 * n) :: rat) < of_int (2 ^ 47)" by (simp only: of_int_less_iff)
  then have "(20::rat) * of_int n < 2 ^ 47" by simp
  moreover have "(0::rat) < 20 * of_int n" using assms(1) by simp
  ultimately show ?thesis by (simp add: frac_less2)
qed

lemma round1_nearest:
  fixes s n :: int
  assumes "0 < n" "n < 2 ^ 40" "0 \<le> s" "s \<le> 100 * n"
  shows "\<bar>of_int (round_half_even (binary64 (of_int s / of_int n) * 10)) / 10
          - (of_int s / of_int n :: rat)\<bar> \<le> 1 / 20"
proof -
  define m :: rat where "m = of_int s / of_int n"
  define x where "x = binary64 m"
  define k where "k = round_half_even (x * 10)"
  have n: "(0::rat) < of_int n" using assms(1) by simp
  have m0: "0 \<le> m" using assms(1,3) by (simp add: m_def)
  have "(of_int s :: rat) \<le> of_int (100 * n)" using assms(4) by (simp only: of_int_le_iff)
  then have "(of_int s :: rat) \<le> 100 * of_int n" by simp
  then have m100: "m \<le> 100" using n by (simp add: m_def pos_divide_le_eq)
  have err: "\<bar>x - m\<bar> \<le> 1 / 2 ^ 47" unfolding x_def using m0 m100 by (rule binary64_error_128)
  have gap: "(1::rat) / 2 ^ 47 < 1 / (20 * of_int n)" using assms(1,2) by (rule small_gap)
  have rk: "\<bar>of_int k - x * 10\<bar> \<le> 1 / 2" unfolding k_def by (rule rhe_error)
  have "\<bar>of_int k / 10 - m\<bar> \<le> 1 / 20"
  proof (rule ccontr)
    assume "\<not> \<bar>of_int k / 10 - m\<bar> \<le> 1 / 20"
    then consider "of_int k - 1 / 2 > 10 * m" | "of_int k + 1 / 2 < 10 * m" by linarith
    then show False
    proof cases
      case 1
      then have "m + 1 / (20 * of_int n) \<le> (2 * of_int k - 1) / 20"
        unfolding m_def using assms(1) by (intro tenth_gap) simp_all
      then show False using err gap rk by (rule nearest_contr_down)
    next
      case 2
      then have "(2 * of_int k + 1) / 20 + 1 / (20 * of_int n) \<le> m"
        unfolding m_def using assms(1) by (intro tenth_gap_up) simp_all
      then show False using err gap rk by (rule nearest_contr_up)
    qed
  qed
  then show ?thesis by (simp add: k_def x_def m_def)
qed

text \<open>Rounding a value that is already (the double of) a tenth changes nothing.\<close>

lemma tenths_stable:
  fixes k :: int
  assumes "0 \<le> k" "k \<le> 1000"
  shows "round_half_even (binary64 (of_int k / 10) * 10) = k"
proof -
  define q :: rat where "q = of_int k / 10"
  have "0 \<le> q" "q \<le> 100" using assms by (simp_all add: q_def)
  then have "\<bar>binary64 q - q\<bar> \<le> 1 / 2 ^ 47" by (rule binary64_error_128)
  moreover have "(1::rat) / 2 ^ 47 < 1 / 20" by simp
  ultimately have "\<bar>binary64 q - q\<bar> < 1 / 20" by linarith
  moreover have qk: "of_int k = q * 10" by (simp add: q_def)
  ultimately have "\<bar>binary64 q * 10 - of_int k\<bar> < 1 / 2" by linarith
  then show ?thesis unfolding q_def by (rule rhe_unique)
qed

lemma mean_separation:
  fixes a b c d :: int
  assumes "0 < b" "0 < d" "b * d < 2 ^ 44" "0 \<le> a" "a \<le> 100 * b" "0 \<le> c" "c \<le> 100 * d"
    and lt: "(of_int a / of_int b :: rat) < of_int c / of_int d"
  shows "binary64 (of_int a / of_int b) < binary64 (of_int c / of_int d)"
proof -
  define p :: rat where "p = of_int a / of_int b"
  define q :: rat where "q = of_int c / of_int d"
  have b: "(0::rat) < of_int b" and d: "(0::rat) < of_int d" using assms(1,2) by simp_all
  have bd: "(0::rat) < of_int (b * d)" using assms(1,2) by simp
  have "(of_int a :: rat) \<le> of_int (100 * b)" using assms(5) by (simp only: of_int_le_iff)
  then have "(of_int a :: rat) \<le> 100 * of_int b" by simp
  then have p100: "p \<le> 100" using b by (simp add: p_def pos_divide_le_eq)
  have p0: "0 \<le> p" using assms(1,4) by (simp add: p_def)
  have "(of_int c :: rat) \<le> of_int (100 * d)" using assms(7) by (simp only: of_int_le_iff)
  then have "(of_int c :: rat) \<le> 100 * of_int d" by simp
  then have q100: "q \<le> 100" using d by (simp add: q_def pos_divide_le_eq)
  have q0: "0 \<le> q" using assms(2,6) by (simp add: q_def)
  have "(of_int a :: rat) * of_int d < of_int c * of_int b"
    using lt b d by (simp add: divide_less_eq pos_less_divide_eq mult.commute)
  then have "(of_int (a * d) :: rat) < of_int (c * b)" by simp
  then have "a * d < c * b" by (simp only: of_int_less_iff)
  then have "a * d + 1 \<le> c * b" by simp
  then have "(of_int (a * d + 1) :: rat) \<le> of_int (c * b)" by (simp only: of_int_le_iff)
  then have num: "(1::rat) \<le> of_int (c * b) - of_int (a * d)" by simp
  have "q - p = (of_int (c * b) - of_int (a * d)) / of_int (b * d)"
    using b d by (simp add: p_def q_def field_simps)
  moreover have "1 / of_int (b * d) \<le> (of_int (c * b) - of_int (a * d)) / (of_int (b * d) :: rat)"
    using num bd by (intro divide_right_mono) simp_all
  ultimately have gap: "1 / of_int (b * d) \<le> q - p" by simp
  have "(of_int (b * d) :: rat) < of_int (2 ^ 44)" using assms(3) by (simp only: of_int_less_iff)
  then have "(of_int (b * d) :: rat) < 2 ^ 44" by simp
  then have "(1::rat) / 2 ^ 44 < 1 / of_int (b * d)" using bd by (simp add: frac_less2)
  then have big: "(1::rat) / 2 ^ 44 < q - p" using gap by linarith
  have ep: "\<bar>binary64 p - p\<bar> \<le> 1 / 2 ^ 47" using p0 p100 by (rule binary64_error_128)
  have eq: "\<bar>binary64 q - q\<bar> \<le> 1 / 2 ^ 47" using q0 q100 by (rule binary64_error_128)
  have "(2::rat) * (1 / 2 ^ 47) < 1 / 2 ^ 44" by simp
  then have "binary64 p < binary64 q" using big ep eq by linarith
  then show ?thesis by (simp add: p_def q_def)
qed

lemma mean_value_less:
  assumes "valid_grades (grades s)" "valid_grades (grades t)" "grades s \<noteq> []" "grades t \<noteq> []"
    and "length (grades s) < 2 ^ 22" "length (grades t) < 2 ^ 22"
    and "exact_mean (grades s) < exact_mean (grades t)"
  shows "mean_value s < mean_value t"
proof -
  have ls: "0 < int (length (grades s))" and lt: "0 < int (length (grades t))"
    using assms(3,4) by simp_all
  have "int (length (grades s)) < 2 ^ 22" "int (length (grades t)) < 2 ^ 22"
    using assms(5,6) by (simp_all flip: of_nat_less_iff)
  then have "int (length (grades s)) * int (length (grades t)) < 2 ^ 22 * 2 ^ 22"
    using ls lt by (intro mult_strict_mono) simp_all
  then have prod: "int (length (grades s)) * int (length (grades t)) < 2 ^ 44" by simp
  show ?thesis
    unfolding mean_value_def
    using ls lt prod valid_grades_sum[OF assms(1)] valid_grades_sum[OF assms(2)] assms(7)
    by (intro mean_separation) (simp_all add: exact_mean_def)
qed

lemma mean_value_order:
  assumes "valid_grades (grades s)" "valid_grades (grades t)" "grades s \<noteq> []" "grades t \<noteq> []"
    and "length (grades s) < 2 ^ 22" "length (grades t) < 2 ^ 22"
  shows "(mean_value s < mean_value t) = (exact_mean (grades s) < exact_mean (grades t))"
    and "(mean_value s \<le> mean_value t) = (exact_mean (grades s) \<le> exact_mean (grades t))"
proof -
  have eq: "exact_mean (grades s) = exact_mean (grades t) \<Longrightarrow> mean_value s = mean_value t"
    by (simp add: mean_value_def exact_mean_def)
  have st: "exact_mean (grades s) < exact_mean (grades t) \<Longrightarrow> mean_value s < mean_value t"
    using assms by (intro mean_value_less) simp_all
  have ts: "exact_mean (grades t) < exact_mean (grades s) \<Longrightarrow> mean_value t < mean_value s"
    using assms by (intro mean_value_less) simp_all
  show "(mean_value s < mean_value t) = (exact_mean (grades s) < exact_mean (grades t))"
    using eq st ts by (metis less_irrefl less_linear less_trans)
  show "(mean_value s \<le> mean_value t) = (exact_mean (grades s) \<le> exact_mean (grades t))"
    using eq st ts by (metis leD leI le_less)
qed

lemma valid_roster_member: "valid_roster r \<Longrightarrow> s \<in> set r \<Longrightarrow> valid_grades (grades s)"
  by (simp add: valid_roster_def list_all_iff)

lemma swg_member: "s \<in> set (students_with_grades r) \<longleftrightarrow> s \<in> set r \<and> grades s \<noteq> []"
  by (auto simp: students_with_grades_def)

text \<open>
  C1. When at least one student has a grade, \<open>find_top_performer\<close> names a student \<open>t\<close>
  among those with grades such that every student with grades inserted before \<open>t\<close> has a
  strictly smaller mean and every one inserted after \<open>t\<close> has a mean that is not greater:
  the first student with the greatest mean. The means compared are the floats
  \<open>sum(grades) / len(grades)\<close>; for grades in \<open>0..100\<close> and fewer than \<open>2 ^ 22\<close> grades per
  student they are ordered exactly as the arithmetic means. For the roster of Ann with
  90, 100 and Bo with 95, 95 the student named is Ann.
\<close>

theorem top_performer_stable_max:
  assumes "students_with_grades r \<noteq> []"
  shows "(\<exists>pre t post. students_with_grades r = pre @ t # post
            \<and> (\<forall>s\<in>set pre. mean_value s < mean_value t)
            \<and> (\<forall>s\<in>set post. mean_value s \<le> mean_value t)
            \<and> find_top_performer r = Inr [top_line (name t) (py_round1 (mean_value t))]
            \<and> (valid_roster r \<and> (\<forall>s\<in>set r. length (grades s) < 2 ^ 22) \<longrightarrow>
                 (\<forall>s\<in>set pre. exact_mean (grades s) < exact_mean (grades t))
                 \<and> (\<forall>s\<in>set post. exact_mean (grades s) \<le> exact_mean (grades t))))
         \<and> find_top_performer
              [\<lparr>name = lit ''Ann'', grades = [90, 100]\<rparr>, \<lparr>name = lit ''Bo'', grades = [95, 95]\<rparr>]
             = Inr [Print (lit ''The student with the highest average is Ann with a grade of 95.0'')]"
proof -
  from find_top_performer_selects[OF assms] obtain pre t post where
    d: "students_with_grades r = pre @ t # post"
    and lo: "\<forall>s\<in>set pre. mean_value s < mean_value t"
    and hi: "\<forall>s\<in>set post. mean_value s \<le> mean_value t"
    and out: "find_top_performer r = Inr [top_line (name t) (py_round1 (mean_value t))]"
    by blast
  have ex: "(\<forall>s\<in>set pre. exact_mean (grades s) < exact_mean (grades t))
            \<and> (\<forall>s\<in>set post. exact_mean (grades s) \<le> exact_mean (grades t))"
    if v: "valid_roster r" and b: "\<forall>s\<in>set r. length (grades s) < 2 ^ 22"
  proof -
    have mem: "s \<in> set r \<and> grades s \<noteq> []" if "s \<in> set (pre @ t # post)" for s
      using that d swg_member[of s r] by simp
    have ok: "valid_grades (grades s) \<and> grades s \<noteq> [] \<and> length (grades s) < 2 ^ 22"
      if "s \<in> set (pre @ t # post)" for s
      using mem[OF that] v b valid_roster_member by blast
    have okt: "valid_grades (grades t) \<and> grades t \<noteq> [] \<and> length (grades t) < 2 ^ 22"
      using ok[of t] by simp
    have "exact_mean (grades s) < exact_mean (grades t)" if "s \<in> set pre" for s
    proof -
      have "valid_grades (grades s) \<and> grades s \<noteq> [] \<and> length (grades s) < 2 ^ 22"
        using ok[of s] that by simp
      then show ?thesis using okt lo that mean_value_order(1)[of s t] by blast
    qed
    moreover have "exact_mean (grades s) \<le> exact_mean (grades t)" if "s \<in> set post" for s
    proof -
      have "valid_grades (grades s) \<and> grades s \<noteq> [] \<and> length (grades s) < 2 ^ 22"
        using ok[of s] that by simp
      then show ?thesis using okt hi that mean_value_order(2)[of s t] by blast
    qed
    ultimately show ?thesis by blast
  qed
  show ?thesis using d lo hi out ex ann_bo by blast
qed

text \<open>
  C9. The comparison uses the unrounded mean; only the printed average is rounded. Of two
  students with grades, the one whose unrounded mean is greater is named, whichever was
  inserted first and whatever their rounded averages are. For grades in \<open>0..100\<close> and
  fewer than \<open>2 ^ 22\<close> grades per student, the unrounded float means compare as the exact
  arithmetic means do.
\<close>

theorem top_performer_compares_unrounded:
  assumes "grades a \<noteq> []" "grades b \<noteq> []"
  shows "(mean_value b < mean_value a \<longrightarrow>
            find_top_performer [a, b] = Inr [top_line (name a) (student_average a)]
            \<and> find_top_performer [b, a] = Inr [top_line (name a) (student_average a)])
         \<and> (valid_grades (grades a) \<and> valid_grades (grades b)
              \<and> length (grades a) < 2 ^ 22 \<and> length (grades b) < 2 ^ 22 \<longrightarrow>
            (mean_value b < mean_value a) = (exact_mean (grades b) < exact_mean (grades a)))"
proof -
  have ka: "mean_key a = Inr (mean_value a)" and kb: "mean_key b = Inr (mean_value b)"
    using assms by (simp_all add: mean_key_value)
  have "find_top_performer [a, b] = Inr [top_line (name a) (student_average a)]
        \<and> find_top_performer [b, a] = Inr [top_line (name a) (student_average a)]"
    if "mean_value b < mean_value a"
    using that assms ka kb
    by (simp add: find_top_performer_def students_with_grades_def py_max_key_def
                  student_average_def)
  moreover have "(mean_value b < mean_value a) = (exact_mean (grades b) < exact_mean (grades a))"
    if "valid_grades (grades a) \<and> valid_grades (grades b)
        \<and> length (grades a) < 2 ^ 22 \<and> length (grades b) < 2 ^ 22"
    using that assms mean_value_order(1)[of b a] by blast
  ultimately show ?thesis by blast
qed

lemma no_grades_iff: "students_with_grades r = [] \<longleftrightarrow> list_all (\<lambda>s. grades s = []) r"
  by (induction r) (auto simp: students_with_grades_def)

text \<open>
  C10. On the empty roster \<open>find_top_performer\<close> prints \<open>No students available.\<close>; on a
  roster that is not empty and in which no student has a grade it prints
  \<open>No grades available\<close>; otherwise it prints the line naming a student of the roster. The
  two messages differ from each other, and the line naming a student differs from both.
\<close>

theorem top_performer_messages:
  "find_top_performer [] = Inr [Print (lit ''No students available.'')]
   \<and> (r \<noteq> [] \<and> list_all (\<lambda>s. grades s = []) r \<longrightarrow>
        find_top_performer r = Inr [Print (lit ''No grades available'')])
   \<and> (\<not> list_all (\<lambda>s. grades s = []) r \<longrightarrow>
        (\<exists>t. t \<in> set r \<and> find_top_performer r = Inr [top_line (name t) (student_average t)]))
   \<and> Print (lit ''No students available.'') \<noteq> Print (lit ''No grades available'')
   \<and> top_line nm v \<noteq> Print (lit ''No students available.'')
   \<and> top_line nm v \<noteq> Print (lit ''No grades available'')"
proof -
  have 1: "find_top_performer [] = Inr [Print (lit ''No students available.'')]"
    by (simp add: find_top_performer_def)
  have 2: "find_top_performer r = Inr [Print (lit ''No grades available'')]"
    if "r \<noteq> [] \<and> list_all (\<lambda>s. grades s = []) r"
    using that by (simp add: find_top_performer_def no_grades_iff)
  have 3: "\<exists>t. t \<in> set r \<and> find_top_performer r = Inr [top_line (name t) (student_average t)]"
    if "\<not> list_all (\<lambda>s. grades s = []) r"
  proof -
    have "students_with_grades r \<noteq> []" using that by (simp add: no_grades_iff)
    from find_top_performer_selects[OF this] obtain pre t post where
      d: "students_with_grades r = pre @ t # post"
      and out: "find_top_performer r = Inr [top_line (name t) (py_round1 (mean_value t))]"
      by blast
    have "t \<in> set (students_with_grades r)" using d by simp
    then have "t \<in> set r" by (simp add: swg_member)
    then show ?thesis using out by (auto simp: student_average_def)
  qed
  have 4: "top_line nm v \<noteq> Print (lit ''No students available.'')"
          "top_line nm v \<noteq> Print (lit ''No grades available'')"
    by (simp_all add: top_line_def lit_def)
  have 5: "Print (lit ''No students available.'') \<noteq> Print (lit ''No grades available'')"
    by (simp add: lit_def)
  show ?thesis using 1 2 3 4 5 by simp
qed

theorem top_performer_stable_max_witness:
  "students_with_grades
     [\<lparr>name = lit ''Cy'', grades = []\<rparr>, \<lparr>name = lit ''Di'', grades = [80]\<rparr>,
      \<lparr>name = lit ''Ann'', grades = [90, 100]\<rparr>, \<lparr>name = lit ''Bo'', grades = [95, 95]\<rparr>] \<noteq> []
   \<and> find_top_performer
     [\<lparr>name = lit ''Cy'', grades = []\<rparr>, \<lparr>name = lit ''Di'', grades = [80]\<rparr>,
      \<lparr>name = lit ''Ann'', grades = [90, 100]\<rparr>, \<lparr>name = lit ''Bo'', grades = [95, 95]\<rparr>]
     = Inr [Print (lit ''The student with the highest average is Ann with a grade of 95.0'')]"
proof -
  have h: "students_with_grades
     [\<lparr>name = lit ''Cy'', grades = []\<rparr>, \<lparr>name = lit ''Di'', grades = [80]\<rparr>,
      \<lparr>name = lit ''Ann'', grades = [90, 100]\<rparr>, \<lparr>name = lit ''Bo'', grades = [95, 95]\<rparr>] \<noteq> []"
    by code_simp
  have c: "find_top_performer
     [\<lparr>name = lit ''Cy'', grades = []\<rparr>, \<lparr>name = lit ''Di'', grades = [80]\<rparr>,
      \<lparr>name = lit ''Ann'', grades = [90, 100]\<rparr>, \<lparr>name = lit ''Bo'', grades = [95, 95]\<rparr>]
     = Inr [Print (lit ''The student with the highest average is Ann with a grade of 95.0'')]"
    by code_simp
  show ?thesis using top_performer_stable_max[OF h] h c by blast
qed

theorem top_performer_compares_unrounded_witness:
  "grades \<lparr>name = lit ''A'', grades = [1, 0, 0]\<rparr> \<noteq> []
   \<and> grades \<lparr>name = lit ''B'', grades = [1, 1, 0, 0, 0, 0, 0]\<rparr> \<noteq> []
   \<and> exact_mean [1, 1, 0, 0, 0, 0, 0] < exact_mean [1, 0, 0]
   \<and> mean_value \<lparr>name = lit ''B'', grades = [1, 1, 0, 0, 0, 0, 0]\<rparr>
       < mean_value \<lparr>name = lit ''A'', grades = [1, 0, 0]\<rparr>
   \<and> student_average \<lparr>name = lit ''B'', grades = [1, 1, 0, 0, 0, 0, 0]\<rparr>
       = student_average \<lparr>name = lit ''A'', grades = [1, 0, 0]\<rparr>
   \<and> find_top_performer
        [\<lparr>name = lit ''B'', grades = [1, 1, 0, 0, 0, 0, 0]\<rparr>, \<lparr>name = lit ''A'', grades = [1, 0, 0]\<rparr>]
       = Inr [Print (lit ''The student with the highest average is A with a grade of 0.3'')]
   \<and> find_top_performer
        [\<lparr>name = lit ''A'', grades = [1, 0, 0]\<rparr>, \<lparr>name = lit ''B'', grades = [1, 1, 0, 0, 0, 0, 0]\<rparr>]
       = Inr [Print (lit ''The student with the highest average is A with a grade of 0.3'')]"
proof -
  have h1: "grades \<lparr>name = lit ''A'', grades = [1, 0, 0]\<rparr> \<noteq> []" by simp
  have h2: "grades \<lparr>name = lit ''B'', grades = [1, 1, 0, 0, 0, 0, 0]\<rparr> \<noteq> []" by simp
  have c1: "exact_mean [1, 1, 0, 0, 0, 0, 0] < exact_mean [1, 0, 0]" by code_simp
  have c2: "mean_value \<lparr>name = lit ''B'', grades = [1, 1, 0, 0, 0, 0, 0]\<rparr>
       < mean_value \<lparr>name = lit ''A'', grades = [1, 0, 0]\<rparr>" by code_simp
  have c3: "student_average \<lparr>name = lit ''B'', grades = [1, 1, 0, 0, 0, 0, 0]\<rparr>
       = student_average \<lparr>name = lit ''A'', grades = [1, 0, 0]\<rparr>" by code_simp
  have c4: "find_top_performer
        [\<lparr>name = lit ''B'', grades = [1, 1, 0, 0, 0, 0, 0]\<rparr>, \<lparr>name = lit ''A'', grades = [1, 0, 0]\<rparr>]
       = Inr [Print (lit ''The student with the highest average is A with a grade of 0.3'')]"
    by code_simp
  have c5: "find_top_performer
        [\<lparr>name = lit ''A'', grades = [1, 0, 0]\<rparr>, \<lparr>name = lit ''B'', grades = [1, 1, 0, 0, 0, 0, 0]\<rparr>]
       = Inr [Print (lit ''The student with the highest average is A with a grade of 0.3'')]"
    by code_simp
  show ?thesis using top_performer_compares_unrounded[OF h1 h2] h1 h2 c1 c2 c3 c4 c5 by blast
qed

theorem top_performer_messages_witness:
  "find_top_performer [\<lparr>name = lit ''Cy'', grades = []\<rparr>, \<lparr>name = lit ''Di'', grades = []\<rparr>]
     = Inr [Print (lit ''No grades available'')]
   \<and> find_top_performer [\<lparr>name = lit ''Cy'', grades = []\<rparr>, \<lparr>name = lit ''Di'', grades = [80]\<rparr>]
     = Inr [Print (lit ''The student with the highest average is Di with a grade of 80.0'')]
   \<and> find_top_performer [] = Inr [Print (lit ''No students available.'')]"
proof -
  have h: "[\<lparr>name = lit ''Cy'', grades = []\<rparr>, \<lparr>name = lit ''Di'', grades = []\<rparr>] \<noteq> []
           \<and> list_all (\<lambda>s. grades s = []) [\<lparr>name = lit ''Cy'', grades = []\<rparr>, \<lparr>name = lit ''Di'', grades = []\<rparr>]"
    by simp
  have c: "find_top_performer [\<lparr>name = lit ''Cy'', grades = []\<rparr>, \<lparr>name = lit ''Di'', grades = [80]\<rparr>]
     = Inr [Print (lit ''The student with the highest average is Di with a grade of 80.0'')]"
    by code_simp
  show ?thesis
    using top_performer_messages
            [of "[\<lparr>name = lit ''Cy'', grades = []\<rparr>, \<lparr>name = lit ''Di'', grades = []\<rparr>]" "[]" 0] h c
    by blast
qed


subsection \<open>Per-student average\<close>

lemma mean_key_empty: "grades s = [] \<Longrightarrow> mean_key s = Inl ZeroDivisionError"
  by (simp add: mean_key_def py_truediv_def)

lemma report_students_step:
  "report_students (s # ss) =
     (if grades s = []
      then (na_line (name s) # fst (report_students ss), snd (report_students ss))
      else (average_line (name s) (student_average s) # fst (report_students ss),
            student_average s # snd (report_students ss)))"
  by (simp add: mean_key_empty mean_key_value student_average_def split: prod.splits)

lemma repr_tenths:
  assumes "0 \<le> k" "k \<le> 1000"
  shows "py_repr1 (binary64 (of_int k / 10)) = decimal1 k"
  using assms tenths_stable[OF assms] by (simp add: py_repr1_def decimal1_def Let_def)

lemma average_is_nearest_tenth:
  assumes "grades s \<noteq> []" "valid_grades (grades s)" "length (grades s) < 2 ^ 40"
  shows "0 \<le> tenths (mean_value s) \<and> tenths (mean_value s) \<le> 1000
         \<and> \<bar>of_int (tenths (mean_value s)) / 10 - exact_mean (grades s)\<bar> \<le> 1 / 20
         \<and> student_average s = binary64 (of_int (tenths (mean_value s)) / 10)"
proof -
  define n where "n = int (length (grades s))"
  define sm where "sm = sum_list (grades s)"
  define k where "k = tenths (mean_value s)"
  have n0: "0 < n" using assms(1) by (simp add: n_def)
  have nb: "n < 2 ^ 40" using assms(3) by (simp add: n_def flip: of_nat_less_iff)
  have sb: "0 \<le> sm" "sm \<le> 100 * n" using valid_grades_sum[OF assms(2)] by (simp_all add: sm_def n_def)
  have near: "\<bar>of_int k / 10 - exact_mean (grades s)\<bar> \<le> 1 / 20"
    using round1_nearest[OF n0 nb sb]
    by (simp add: k_def tenths_def mean_value_def exact_mean_def sm_def n_def)
  have rng: "0 \<le> exact_mean (grades s) \<and> exact_mean (grades s) \<le> 100"
    using assms(2,1) by (rule exact_mean_range)
  have "(of_int k :: rat) / 10 \<ge> - (1 / 20)" "(of_int k :: rat) / 10 \<le> 100 + 1 / 20"
    using near rng by linarith+
  then have "(of_int k :: rat) > of_int (- 1)" "(of_int k :: rat) < of_int 1001" by simp_all
  then have kr: "- 1 < k" "k < 1001" by (simp_all only: of_int_less_iff)
  have "student_average s = binary64 (of_int k / 10)"
    by (simp add: student_average_def py_round1_def k_def tenths_def)
  then show ?thesis using near kr unfolding k_def by simp
qed

lemma report_students_eq:
  "report_students r = (map student_line r, map student_average (students_with_grades r))"
proof (induction r)
  case Nil
  show ?case by (simp add: students_with_grades_def)
next
  case (Cons s r)
  show ?case
    by (simp only: report_students_step Cons)
       (simp add: student_line_def students_with_grades_def)
qed

lemma foldl_max: "foldl (\<lambda>m v. if m < v then v else m) (x::rat) r = Max (set (x # r))"
proof (induction r arbitrary: x)
  case Nil
  show ?case by simp
next
  case (Cons a r)
  have "foldl (\<lambda>m v. if m < v then v else m) x (a # r)
          = Max (set ((if x < a then a else x) # r))"
    using Cons[of "if x < a then a else x"] by simp
  also have "\<dots> = Max (insert (max x a) (set r))"
    by (simp add: max_def not_less)
  also have "\<dots> = Max (set (x # a # r))"
    by (cases "set r = {}") (simp_all add: Max_insert max.assoc)
  finally show ?case .
qed

lemma foldl_min: "foldl (\<lambda>m v. if v < m then v else m) (x::rat) r = Min (set (x # r))"
proof (induction r arbitrary: x)
  case Nil
  show ?case by simp
next
  case (Cons a r)
  have "foldl (\<lambda>m v. if v < m then v else m) x (a # r)
          = Min (set ((if a < x then a else x) # r))"
    using Cons[of "if a < x then a else x"] by simp
  also have "\<dots> = Min (insert (min x a) (set r))"
    by (simp add: min_def not_less)
  also have "\<dots> = Min (set (x # a # r))"
    by (cases "set r = {}") (simp_all add: Min_insert min.assoc)
  finally show ?case .
qed

lemma py_max_Max: "xs \<noteq> [] \<Longrightarrow> py_max xs = Inr (Max (set xs))"
  by (cases xs) (simp_all add: py_max_def foldl_max del: set_simps)

lemma py_min_Min: "xs \<noteq> [] \<Longrightarrow> py_min xs = Inr (Min (set xs))"
  by (cases xs) (simp_all add: py_min_def foldl_min del: set_simps)

lemma show_report_no_grades:
  assumes "r \<noteq> []" "students_with_grades r = []"
  shows "show_report r
           = Inr (Print (lit ''-----Student Report-----'') # map student_line r
                  @ [Print (lit ''No grades available for summary.'')])"
  using assms by (simp add: show_report_def report_students_eq)

lemma show_report_summary:
  assumes "students_with_grades r \<noteq> []"
  shows "show_report r
           = Inr (Print (lit ''-----Student Report-----'') # map student_line r
                  @ [Print (lit ''-------------------------''),
                     Print (lit ''Max average: '' @ py_repr1 (py_round1
                       (Max (set (map student_average (students_with_grades r)))))),
                     Print (lit ''Min average: '' @ py_repr1 (py_round1
                       (Min (set (map student_average (students_with_grades r)))))),
                     Print (lit ''Overall average: '' @ py_repr1 (py_round1
                       (float_mean (map student_average (students_with_grades r)))))])"
proof -
  define avs where "avs = map student_average (students_with_grades r)"
  have ne: "avs \<noteq> []" using assms by (simp add: avs_def)
  have rne: "r \<noteq> []" using assms by (auto simp: students_with_grades_def)
  have len: "int (length avs) \<noteq> 0" using ne by simp
  have d: "py_fdiv (py_sum avs) (int (length avs)) = Inr (float_mean avs)"
    using len by (simp add: py_fdiv_def float_mean_def)
  show ?thesis
    unfolding avs_def[symmetric]
    using rne ne d py_max_Max[OF ne] py_min_Min[OF ne]
    by (simp add: show_report_def report_students_eq avs_def[symmetric])
qed

lemma show_report_lines:
  assumes "r \<noteq> []"
  shows "\<exists>summary. show_report r
           = Inr (Print (lit ''-----Student Report-----'') # map student_line r @ summary)"
proof (cases "students_with_grades r = []")
  case True
  show ?thesis unfolding show_report_no_grades[OF assms True] by blast
next
  case False
  show ?thesis unfolding show_report_summary[OF False] by blast
qed

text \<open>
  C2. For a roster that is not empty \<open>show_report\<close> prints, after the heading, one line
  for every student in order, and then the summary; it raises no error. The line of a
  student without grades says \<open>N/A\<close>; this is the \<open>ZeroDivisionError\<close> that the loop body
  catches, the student adds nothing to \<open>averages\<close>, and the loop goes on with the remaining
  students. The line of a student with grades shows the float
  \<open>round(sum(grades) / len(grades), 1)\<close>, which is added to \<open>averages\<close>. For grades in
  \<open>0..100\<close> (fewer than \<open>2 ^ 40\<close> of them) this average is the arithmetic mean rounded to
  one decimal place: there is a number of tenths \<open>k\<close> with \<open>k / 10\<close> within \<open>1 / 20\<close> of the
  mean, the average is the float nearest to \<open>k / 10\<close>, and the line shows the decimal
  \<open>k / 10\<close>.
\<close>

theorem per_student_average:
  "(r \<noteq> [] \<longrightarrow>
      (\<exists>summary. show_report r
          = Inr (Print (lit ''-----Student Report-----'') # map student_line r @ summary)))
   \<and> (grades s = [] \<longrightarrow>
      student_line s = Print (name s @ [39] @ lit ''s average grade is N/A.'')
      \<and> mean_key s = Inl ZeroDivisionError
      \<and> report_students (s # ss)
        = (student_line s # fst (report_students ss), snd (report_students ss)))
   \<and> (grades s \<noteq> [] \<longrightarrow>
      student_line s
        = Print (name s @ [39] @ lit ''s average grade is '' @ py_repr1 (student_average s) @ [46])
      \<and> mean_key s = Inr (mean_value s)
      \<and> student_average s = py_round1 (mean_value s)
      \<and> report_students (s # ss)
        = (student_line s # fst (report_students ss), student_average s # snd (report_students ss)))
   \<and> (grades s \<noteq> [] \<and> valid_grades (grades s) \<and> length (grades s) < 2 ^ 40 \<longrightarrow>
      (\<exists>k. 0 \<le> k \<and> k \<le> 1000
          \<and> \<bar>of_int k / 10 - exact_mean (grades s)\<bar> \<le> 1 / 20
          \<and> student_average s = binary64 (of_int k / 10)
          \<and> student_line s
              = Print (name s @ [39] @ lit ''s average grade is '' @ decimal1 k @ [46])))"
proof (intro conjI impI)
  assume "r \<noteq> []"
  then show "\<exists>summary. show_report r
          = Inr (Print (lit ''-----Student Report-----'') # map student_line r @ summary)"
    by (rule show_report_lines)
next
  assume e: "grades s = []"
  show "student_line s = Print (name s @ [39] @ lit ''s average grade is N/A.'')"
    using e by (simp add: student_line_def na_line_def)
  show "mean_key s = Inl ZeroDivisionError" using e by (rule mean_key_empty)
  show "report_students (s # ss)
        = (student_line s # fst (report_students ss), snd (report_students ss))"
    unfolding report_students_step using e by (simp add: student_line_def)
next
  assume g: "grades s \<noteq> []"
  show "student_line s
        = Print (name s @ [39] @ lit ''s average grade is '' @ py_repr1 (student_average s) @ [46])"
    using g by (simp add: student_line_def average_line_def)
  show "mean_key s = Inr (mean_value s)" using g by (rule mean_key_value)
  show "student_average s = py_round1 (mean_value s)" by (rule student_average_def)
  show "report_students (s # ss)
        = (student_line s # fst (report_students ss), student_average s # snd (report_students ss))"
    unfolding report_students_step using g by (simp add: student_line_def)
next
  assume h: "grades s \<noteq> [] \<and> valid_grades (grades s) \<and> length (grades s) < 2 ^ 40"
  define k where "k = tenths (mean_value s)"
  have a: "0 \<le> k" "k \<le> 1000" "\<bar>of_int k / 10 - exact_mean (grades s)\<bar> \<le> 1 / 20"
    "student_average s = binary64 (of_int k / 10)"
    using average_is_nearest_tenth[of s] h by (simp_all add: k_def)
  have "student_line s = Print (name s @ [39] @ lit ''s average grade is '' @ decimal1 k @ [46])"
    using repr_tenths[OF a(1,2)] a(4) h by (simp add: student_line_def average_line_def)
  then show "\<exists>k. 0 \<le> k \<and> k \<le> 1000
          \<and> \<bar>of_int k / 10 - exact_mean (grades s)\<bar> \<le> 1 / 20
          \<and> student_average s = binary64 (of_int k / 10)
          \<and> student_line s
              = Print (name s @ [39] @ lit ''s average grade is '' @ decimal1 k @ [46])"
    using a by blast
qed

theorem per_student_average_witness:
  "show_report
     [\<lparr>name = lit ''Zed'', grades = []\<rparr>, \<lparr>name = lit ''Ann'', grades = [90, 91, 91, 91]\<rparr>,
      \<lparr>name = lit ''Low'', grades = [7, 0, 0, 0, 0, 0, 0, 0, 0, 0, 0, 0, 0, 0, 0, 0, 0, 0, 0, 0]\<rparr>]
     = Inr [Print (lit ''-----Student Report-----''),
            Print (lit ''Zed'' @ [39] @ lit ''s average grade is N/A.''),
            Print (lit ''Ann'' @ [39] @ lit ''s average grade is 90.8.''),
            Print (lit ''Low'' @ [39] @ lit ''s average grade is 0.3.''),
            Print (lit ''-------------------------''),
            Print (lit ''Max average: 90.8''),
            Print (lit ''Min average: 0.3''),
            Print (lit ''Overall average: 45.5'')]
   \<and> exact_mean [90, 91, 91, 91] = 363 / 4
   \<and> student_line \<lparr>name = lit ''Ann'', grades = [90, 91, 91, 91]\<rparr>
       = Print (lit ''Ann'' @ [39] @ lit ''s average grade is 90.8.'')
   \<and> student_line \<lparr>name = lit ''Zed'', grades = []\<rparr>
       = Print (lit ''Zed'' @ [39] @ lit ''s average grade is N/A.'')"
proof -
  have c1: "show_report
     [\<lparr>name = lit ''Zed'', grades = []\<rparr>, \<lparr>name = lit ''Ann'', grades = [90, 91, 91, 91]\<rparr>,
      \<lparr>name = lit ''Low'', grades = [7, 0, 0, 0, 0, 0, 0, 0, 0, 0, 0, 0, 0, 0, 0, 0, 0, 0, 0, 0]\<rparr>]
     = Inr [Print (lit ''-----Student Report-----''),
            Print (lit ''Zed'' @ [39] @ lit ''s average grade is N/A.''),
            Print (lit ''Ann'' @ [39] @ lit ''s average grade is 90.8.''),
            Print (lit ''Low'' @ [39] @ lit ''s average grade is 0.3.''),
            Print (lit ''-------------------------''),
            Print (lit ''Max average: 90.8''),
            Print (lit ''Min average: 0.3''),
            Print (lit ''Overall average: 45.5'')]"
    by code_simp
  have c2: "exact_mean [90, 91, 91, 91] = 363 / 4" by code_simp
  have c3: "student_line \<lparr>name = lit ''Ann'', grades = [90, 91, 91, 91]\<rparr>
       = Print (lit ''Ann'' @ [39] @ lit ''s average grade is 90.8.'')" by code_simp
  have e: "grades \<lparr>name = lit ''Zed'', grades = []\<rparr> = []" by simp
  note t = per_student_average[of "[]" "\<lparr>name = lit ''Zed'', grades = []\<rparr>" "[]",
             THEN conjunct2, THEN conjunct1, THEN mp, OF e, THEN conjunct1]
  have c4: "student_line \<lparr>name = lit ''Zed'', grades = []\<rparr>
       = Print (lit ''Zed'' @ [39] @ lit ''s average grade is N/A.'')"
    using t by simp
  show ?thesis by (intro conjI c1 c2 c3 c4)
qed


subsection \<open>Name validator\<close>

lemma ascii_lower_space [simp]: "py_isspace E (ascii_lower c) = py_isspace E c"
  by (auto simp: ascii_lower_def py_isspace_def ascii_isupper_def)

lemma ascii_lower_blank [simp]: "ascii_lower 32 = 32"
  by (simp add: ascii_lower_def ascii_isupper_def)

lemma ascii_lower_props:
  assumes "ascii c"
  shows "ascii (ascii_lower c)"
    and "lower_at E s i (ascii_lower c) = lower_at E s' j c"
    and "title_of E (ascii_lower c) = title_of E c"
    and "py_iscased E (ascii_lower c) = py_iscased E c"
  using assms
  by (auto simp: ascii_def ascii_lower_def ascii_upper_def ascii_isupper_def ascii_islower_def
                 lower_at_def title_of_def py_iscased_def)

lemma ascii_context: "ascii c \<Longrightarrow> lower_at E s i c = lower_at E s' j c"
  by (simp add: ascii_def lower_at_def)

lemma title_lower:
  "list_all ascii cs \<Longrightarrow> title_from E s i b (map ascii_lower cs) = title_from E s' j b cs"
proof (induction cs arbitrary: i j b)
  case Nil
  show ?case by simp
next
  case (Cons c cs)
  have a: "ascii c" and r: "list_all ascii cs" using Cons.prems by simp_all
  have ih: "title_from E s (Suc i) (py_iscased E c) (map ascii_lower cs)
              = title_from E s' (Suc j) (py_iscased E c) cs"
    using r by (rule Cons.IH)
  show ?case
    by (simp add: ascii_lower_props(2)[OF a, of E s i s' j] ascii_lower_props(3,4)[OF a] ih)
qed

lemma title_context:
  assumes "list_all ascii cs"
  shows "title_from E s i b cs = title_from E s' j b cs"
  using title_lower[OF assms, of E s i b s' j] title_lower[OF assms, of E s i b s i] by simp

lemma split_lower:
  "split_acc E (map ascii_lower w) (map ascii_lower s) = map (map ascii_lower) (split_acc E w s)"
  by (induction E w s rule: split_acc.induct) auto

lemma join_lower: "py_join (map (map ascii_lower) ws) = map ascii_lower (py_join ws)"
  by (induction ws rule: py_join.induct) auto

lemma split_all:
  "list_all P w \<Longrightarrow> list_all P s \<Longrightarrow> list_all (list_all P) (split_acc E w s)"
  by (induction E w s rule: split_acc.induct) auto

lemma join_all: "list_all (list_all P) ws \<Longrightarrow> P 32 \<Longrightarrow> list_all P (py_join ws)"
  by (induction ws rule: py_join.induct) auto

lemma joined_ascii: "list_all ascii s \<Longrightarrow> list_all ascii (py_join (py_split E s))"
  unfolding py_split_def by (rule join_all, rule split_all) (simp_all add: ascii_def)

lemma normalized_lower:
  assumes "list_all ascii s"
  shows "normalized_name E (map ascii_lower s) = normalized_name E s"
proof -
  define J where "J = py_join (py_split E s)"
  have a: "list_all ascii J" unfolding J_def using assms by (rule joined_ascii)
  have "py_split E (map ascii_lower s) = map (map ascii_lower) (py_split E s)"
    using split_lower[of E "[]" s] by (simp add: py_split_def)
  then have "py_join (py_split E (map ascii_lower s)) = map ascii_lower J"
    by (simp add: join_lower J_def)
  then have "normalized_name E (map ascii_lower s)
               = title_from E (map ascii_lower J) 0 False (map ascii_lower J)"
    by (simp add: normalized_name_def py_title_def)
  also have "\<dots> = title_from E J 0 False J" using a by (rule title_lower)
  finally show ?thesis by (simp add: normalized_name_def py_title_def J_def)
qed

lemma ascii_same_letter:
  "ascii c \<Longrightarrow> ascii d \<Longrightarrow> title_of E c = title_of E d \<Longrightarrow> ascii_lower c = ascii_lower d"
  by (auto simp: title_of_def ascii_def ascii_upper_def ascii_lower_def ascii_islower_def
                 ascii_isupper_def split: if_splits)

lemma split_trailing: "py_isspace E c \<Longrightarrow> split_acc E w (s @ [c]) = split_acc E w s"
  by (induction E w s rule: split_acc.induct) auto

lemma split_inner:
  "py_isspace E c \<Longrightarrow> py_isspace E d \<Longrightarrow>
     split_acc E w (u @ c # d # v) = split_acc E w (u @ d # v)"
  by (induction E w u rule: split_acc.induct) auto

lemma split_other:
  "py_isspace E c \<Longrightarrow> py_isspace E d \<Longrightarrow>
     split_acc E w (u @ c # v) = split_acc E w (u @ d # v)"
  by (induction E w u rule: split_acc.induct) auto

lemma variant_normalized:
  "name_variant E ascii a b \<Longrightarrow> normalized_name E a = normalized_name E b"
proof (induction rule: name_variant.induct)
  case (same a)
  show ?case by simp
next
  case (letter_case c d u v)
  have c: "ascii c" and d: "ascii d" using letter_case(2) by simp_all
  have 1: "list_all ascii (u @ c # v)" and 2: "list_all ascii (u @ d # v)"
    using letter_case(2) by simp_all
  have "ascii_lower c = ascii_lower d" using c d letter_case(1) by (rule ascii_same_letter)
  then have e: "map ascii_lower (u @ c # v) = map ascii_lower (u @ d # v)" by simp
  have "normalized_name E (u @ c # v) = normalized_name E (map ascii_lower (u @ c # v))"
    using normalized_lower[OF 1, of E] by simp
  also have "\<dots> = normalized_name E (u @ d # v)"
    unfolding e using 2 by (rule normalized_lower)
  finally show ?case .
next
  case (leading_space c a)
  then show ?case by (simp add: normalized_name_def py_split_def)
next
  case (trailing_space c a)
  then show ?case by (simp add: normalized_name_def py_split_def split_trailing)
next
  case (inner_space c d u v)
  then show ?case by (simp add: normalized_name_def py_split_def split_inner)
next
  case (other_space c d u v)
  then show ?case
    using split_other[of E c d "[]" u v] by (simp add: normalized_name_def py_split_def)
next
  case (sym a b)
  then show ?case by simp
next
  case (trans a b c)
  then show ?case by simp
qed

lemma blank_plain:
  "lower_at E s i 32 = [32]" "title_of E 32 = [32]" "\<not> py_iscased E 32"
  by (simp_all add: lower_at_def title_of_def py_iscased_def ascii_lower_def ascii_upper_def
                    ascii_isupper_def ascii_islower_def)

lemma title_blank:
  "list_all ascii (x @ 32 # y) \<Longrightarrow>
     title_from E s i b (x @ 32 # y) = title_from E s1 i1 b x @ 32 # title_from E s2 i2 False y"
proof (induction x arbitrary: i i1 b)
  case Nil
  then have "list_all ascii y" by simp
  then have "title_from E s (Suc i) False y = title_from E s2 i2 False y"
    by (rule title_context)
  then show ?case by (simp add: blank_plain)
next
  case (Cons c x)
  have a: "ascii c" and r: "list_all ascii (x @ 32 # y)" using Cons.prems by simp_all
  have ih: "title_from E s (Suc i) (py_iscased E c) (x @ 32 # y)
              = title_from E s1 (Suc i1) (py_iscased E c) x @ 32 # title_from E s2 i2 False y"
    using r by (rule Cons.IH)
  show ?case by (simp add: ih ascii_context[OF a, of E s i s1 i1])
qed

lemma title_join:
  "list_all (list_all ascii) ws \<Longrightarrow> py_title E (py_join ws) = py_join (map (py_title E) ws)"
proof (induction ws rule: py_join.induct)
  case 1
  show ?case by (simp add: py_title_def)
next
  case (2 w)
  show ?case by simp
next
  case (3 w v ws)
  have r: "list_all (list_all ascii) (v # ws)" using 3(2) by simp
  have j: "list_all ascii (py_join (v # ws))"
    using r by (rule join_all) (simp add: ascii_def)
  have b: "ascii 32" by (simp add: ascii_def)
  have a: "list_all ascii (w @ 32 # py_join (v # ws))" using 3(2) j b by simp
  have "py_title E (py_join (w # v # ws))
          = py_title E w @ 32 # py_title E (py_join (v # ws))"
    unfolding py_title_def py_join.simps using a by (rule title_blank)
  then show ?case using 3(1)[OF r] by simp
qed

lemma split_words:
  "\<forall>c\<in>set w. \<not> py_isspace E c \<Longrightarrow>
     \<forall>x\<in>set (split_acc E w s). x \<noteq> [] \<and> (\<forall>c\<in>set x. \<not> py_isspace E c)"
proof (induction s arbitrary: w)
  case Nil
  then show ?case by simp
next
  case (Cons a s)
  show ?case
  proof (cases "py_isspace E a")
    case True
    have "\<forall>x\<in>set (split_acc E [] s). x \<noteq> [] \<and> (\<forall>c\<in>set x. \<not> py_isspace E c)"
      by (rule Cons.IH) simp
    then show ?thesis using True Cons.prems by simp
  next
    case False
    have "\<forall>x\<in>set (split_acc E (w @ [a]) s). x \<noteq> [] \<and> (\<forall>c\<in>set x. \<not> py_isspace E c)"
      by (rule Cons.IH) (use False Cons.prems in simp)
    then show ?thesis using False by simp
  qed
qed

lemma turkish_titles:
  "title_of turkish_letters 0x131 = title_of turkish_letters 0x49"
  "title_of turkish_letters 0x15F = title_of turkish_letters 0x15E"
  "title_of turkish_letters 0x6B = title_of turkish_letters 0x4B"
  by code_simp+

lemma any_text: "list_all any_char s"
  by (induction s) (simp_all add: any_char_def)

lemma upper_case_variant:
  "name_variant turkish_letters any_char [0x131, 0x15F, 0x131, 0x6B] [0x49, 0x15E, 0x49, 0x4B]"
proof -
  have 1: "name_variant turkish_letters any_char
             [0x131, 0x15F, 0x131, 0x6B] [0x49, 0x15F, 0x131, 0x6B]"
    using letter_case[OF turkish_titles(1) any_text, of "[]" "[0x15F, 0x131, 0x6B]"]
    by (simp only: append.simps)
  have 2: "name_variant turkish_letters any_char
             [0x49, 0x15F, 0x131, 0x6B] [0x49, 0x15E, 0x131, 0x6B]"
    using letter_case[OF turkish_titles(2) any_text, of "[0x49]" "[0x131, 0x6B]"]
    by (simp only: append.simps)
  have 3: "name_variant turkish_letters any_char
             [0x49, 0x15E, 0x131, 0x6B] [0x49, 0x15E, 0x49, 0x6B]"
    using letter_case[OF turkish_titles(1) any_text, of "[0x49, 0x15E]" "[0x6B]"]
    by (simp only: append.simps)
  have 4: "name_variant turkish_letters any_char
             [0x49, 0x15E, 0x49, 0x6B] [0x49, 0x15E, 0x49, 0x4B]"
    using letter_case[OF turkish_titles(3) any_text, of "[0x49, 0x15E, 0x49]" "[]"]
    by (simp only: append.simps)
  show ?thesis
    by (rule name_variant.trans[OF 1 name_variant.trans[OF 2 name_variant.trans[OF 3 4]]])
qed





subsection \<open>Adding a student\<close>

lemma find_student_None: "find_student nm r = None \<longleftrightarrow> filter (\<lambda>s. name s = nm) r = []"
  by (induction r) auto

lemma find_student_new: "find_student nm (r @ [\<lparr>name = nm, grades = []\<rparr>]) \<noteq> None"
  by (induction r) auto

lemma status_emit [simp]: "status (emit evs res) = status res"
  by (simp add: emit_def)

lemma students_emit [simp]: "students (emit evs res) = students res"
  by (simp add: emit_def)

lemma pending_emit [simp]: "pending (emit evs res) = pending res"
  by (simp add: emit_def)

lemma add_student_outcome:
  "(status (add_student E r ls) = Returned
      \<and> (\<exists>nm. find_student nm r = None
             \<and> students (add_student E r ls) = r @ [\<lparr>name = nm, grades = []\<rparr>]))
   \<or> (status (add_student E r ls) = Raised EOFError \<and> students (add_student E r ls) = r)"
proof (induction ls)
  case Nil
  show ?case by simp
next
  case (Cons line ls)
  show ?case
  proof (cases "check_input E line")
    case None
    then show ?thesis using Cons by simp
  next
    case (Some nm)
    then show ?thesis using Cons by (cases "find_student nm r") simp_all
  qed
qed

lemma add_student_students:
  "students (add_student E r ls) = r
   \<or> (\<exists>nm. find_student nm r = None
          \<and> students (add_student E r ls) = r @ [\<lparr>name = nm, grades = []\<rparr>])"
  using add_student_outcome[of E r ls] by blast

lemma add_student_count:
  assumes "length (filter (\<lambda>s. name s = nm) r) = 1"
  shows "length (filter (\<lambda>s. name s = nm) (students (add_student E r ls))) = 1"
proof -
  from add_student_students[of E r ls] show ?thesis
  proof
    assume "students (add_student E r ls) = r"
    then show ?thesis using assms by simp
  next
    assume "\<exists>n2. find_student n2 r = None
               \<and> students (add_student E r ls) = r @ [\<lparr>name = n2, grades = []\<rparr>]"
    then obtain n2 where f: "find_student n2 r = None"
      and s: "students (add_student E r ls) = r @ [\<lparr>name = n2, grades = []\<rparr>]" by blast
    have "filter (\<lambda>s. name s = n2) r = []" using f by (simp add: find_student_None)
    then have "n2 \<noteq> nm" using assms by auto
    then show ?thesis using s assms by simp
  qed
qed

lemma add_student_dup:
  assumes "check_input E line = Some nm" "find_student nm r \<noteq> None"
  shows "add_student E r (line # ls)
           = emit [name_prompt, duplicate_msg nm] (add_student E r ls)"
proof -
  obtain s where s: "find_student nm r = Some s" using assms(2) by blast
  show ?thesis by (simp only: add_student.simps assms(1) s option.case)
qed

lemma add_student_new:
  assumes "check_input E line = Some nm" "find_student nm r = None"
  shows "add_student E r (line # ls)
           = \<lparr>status = Returned, students = r @ [\<lparr>name = nm, grades = []\<rparr>],
              pending = ls, console = [name_prompt]\<rparr>"
  by (simp only: add_student.simps assms option.case)

lemma add_student_last_dup:
  assumes "check_input E line = Some nm" "find_student nm r \<noteq> None"
  shows "add_student E r [line]
           = \<lparr>status = Raised EOFError, students = r, pending = [],
              console = [name_prompt, duplicate_msg nm, name_prompt]\<rparr>"
proof -
  have "add_student E r [line] = emit [name_prompt, duplicate_msg nm] (add_student E r [])"
    using assms by (rule add_student_dup)
  then show ?thesis by (simp add: emit_def)
qed





subsection \<open>Grades stay in range\<close>

lemma valid_append_grade:
  "valid_roster r \<Longrightarrow> 0 \<le> v \<Longrightarrow> v \<le> 100 \<Longrightarrow> valid_roster (append_grade nm v r)"
  by (induction r) (simp_all add: valid_roster_def valid_grades_def)

lemma valid_input_grade: "valid_input E g = Grade v \<Longrightarrow> 0 \<le> v \<and> v \<le> 100"
  by (simp add: valid_input_def split: if_splits option.splits)

lemma valid_enter_grades:
  "valid_roster r \<Longrightarrow> valid_roster (students (enter_grades E nm r ls))"
proof (induction ls arbitrary: r)
  case Nil
  then show ?case by simp
next
  case (Cons g ls)
  show ?case
  proof (cases "valid_input E g")
    case Done
    then show ?thesis using Cons.prems by simp
  next
    case (Grade v)
    then have "valid_roster (append_grade nm v r)"
      using valid_input_grade[OF Grade] Cons.prems by (simp add: valid_append_grade)
    then have "valid_roster (students (enter_grades E nm (append_grade nm v r) ls))"
      by (rule Cons.IH)
    then show ?thesis using Grade by simp
  next
    case Invalid
    then show ?thesis using Cons.IH[OF Cons.prems] by simp
  qed
qed

lemma valid_add_grades: "valid_roster r \<Longrightarrow> valid_roster (students (add_grades E r ls))"
proof (induction ls)
  case Nil
  then show ?case by simp
next
  case (Cons line ls)
  show ?case
  proof (cases "check_input E line")
    case None
    then show ?thesis using Cons by simp
  next
    case (Some nm)
    show ?thesis
    proof (cases "find_student nm r")
      case None
      then show ?thesis using Some Cons.prems by simp
    next
      case (Some s)
      then show ?thesis
        using \<open>check_input E line = Some nm\<close> valid_enter_grades[OF Cons.prems, of E nm ls] by simp
    qed
  qed
qed

lemma valid_add_student: "valid_roster r \<Longrightarrow> valid_roster (students (add_student E r ls))"
  using add_student_students[of E r ls]
  by (auto simp: valid_roster_def valid_grades_def)

lemma students_printed [simp]: "students (printed r ls res) = r"
  by (simp add: printed_def split: sum.splits)

lemma valid_menu: "valid_roster r \<Longrightarrow> valid_roster (students (menu E select r ls))"
  by (simp add: menu_def valid_add_student valid_add_grades)

lemma valid_main_loop: "valid_roster r \<Longrightarrow> valid_roster (students (main_loop E r ls))"
proof (induction E r ls rule: main_loop.induct)
  case (1 E r)
  then show ?case by simp
next
  case (2 E r line ls)
  show ?case
  proof (cases "py_int E line")
    case None
    then show ?thesis using 2 by simp
  next
    case (Some choice)
    show ?thesis
    proof (cases "choice > 5 \<or> choice < 1")
      case True
      then show ?thesis using Some 2 by simp
    next
      case False
      note inr = False
      show ?thesis
      proof (cases "status (menu E choice r ls) \<noteq> Returned \<or> choice = 5")
        case True
        then show ?thesis using Some inr valid_menu[OF "2.prems", of E choice ls] by simp
      next
        case False
        have "valid_roster (students (main_loop E (students (menu E choice r ls))
                                                (pending (menu E choice r ls))))"
          using Some inr False valid_menu[OF "2.prems", of E choice ls]
          by (intro "2.IH"(3)) simp_all
        then show ?thesis using Some inr False by simp
      qed
    qed
  qed
qed

lemma reachable_valid: "reachable E r \<Longrightarrow> valid_roster r"
proof (induction rule: reachable.induct)
  case initial
  show ?case by (simp add: valid_roster_def)
next
  case (operation r select ls)
  then show ?case by (simp only: valid_menu)
qed

lemma valid_roster_grades:
  "valid_roster r \<Longrightarrow> \<forall>s\<in>set r. \<forall>g\<in>set (grades s). 0 \<le> g \<and> g \<le> 100"
  by (simp add: valid_roster_def valid_grades_def list_all_iff)

text \<open>
  C7. Every grade of every record of a reachable roster lies in \<open>0..100\<close>. The range
  property is kept by \<open>add_student\<close> and by \<open>add_grades\<close> on every input, the two reports
  leave the roster as it is, and the roster that the whole program ends with, started from
  the empty roster on any input, has the property.
\<close>

theorem grades_in_range:
  "(reachable E r \<longrightarrow> (\<forall>s\<in>set r. \<forall>g\<in>set (grades s). 0 \<le> g \<and> g \<le> 100))
   \<and> (valid_roster r \<longrightarrow>
        valid_roster (students (add_student E r ls))
        \<and> valid_roster (students (add_grades E r ls)))
   \<and> students (menu E 3 r ls) = r \<and> students (menu E 4 r ls) = r
   \<and> valid_roster (students (main_loop E [] ls))
   \<and> (\<forall>s\<in>set (students (main_loop E [] ls)). \<forall>g\<in>set (grades s). 0 \<le> g \<and> g \<le> 100)"
proof (intro conjI impI)
  assume "reachable E r"
  then have "valid_roster r" by (rule reachable_valid)
  then show "\<forall>s\<in>set r. \<forall>g\<in>set (grades s). 0 \<le> g \<and> g \<le> 100"
    by (rule valid_roster_grades)
next
  assume v: "valid_roster r"
  show "valid_roster (students (add_student E r ls))" using v by (rule valid_add_student)
  show "valid_roster (students (add_grades E r ls))" using v by (rule valid_add_grades)
next
  show "students (menu E 3 r ls) = r" by (simp add: menu_def)
  show "students (menu E 4 r ls) = r" by (simp add: menu_def)
  have e: "valid_roster []" by (simp add: valid_roster_def)
  then show m: "valid_roster (students (main_loop E [] ls))" by (rule valid_main_loop)
  then show "\<forall>s\<in>set (students (main_loop E [] ls)). \<forall>g\<in>set (grades s). 0 \<le> g \<and> g \<le> 100"
    by (rule valid_roster_grades)
qed

theorem grades_in_range_witness:
  "reachable turkish_letters (students (menu turkish_letters 2 (students (menu turkish_letters 1 [] [lit ''ann'']))
                              [lit ''ann'', lit ''90'', lit ''101'', lit ''-1'', lit ''100'', lit ''done'']))
   \<and> students (menu turkish_letters 2 (students (menu turkish_letters 1 [] [lit ''ann'']))
                     [lit ''ann'', lit ''90'', lit ''101'', lit ''-1'', lit ''100'', lit ''done''])
       = [\<lparr>name = lit ''Ann'', grades = [90, 100]\<rparr>]
   \<and> list_all (\<lambda>s. list_all (\<lambda>g. 0 \<le> g \<and> g \<le> 100) (grades s))
        (students (menu turkish_letters 2 (students (menu turkish_letters 1 [] [lit ''ann'']))
                          [lit ''ann'', lit ''90'', lit ''101'', lit ''-1'', lit ''100'', lit ''done'']))"
proof -
  have r: "reachable turkish_letters (students (menu turkish_letters 2 (students (menu turkish_letters 1 [] [lit ''ann'']))
                              [lit ''ann'', lit ''90'', lit ''101'', lit ''-1'', lit ''100'', lit ''done'']))"
    by (rule operation[OF operation[OF initial]])
  have e: "students (menu turkish_letters 2 (students (menu turkish_letters 1 [] [lit ''ann'']))
                     [lit ''ann'', lit ''90'', lit ''101'', lit ''-1'', lit ''100'', lit ''done''])
       = [\<lparr>name = lit ''Ann'', grades = [90, 100]\<rparr>]"
    by code_simp
  note g = grades_in_range[THEN conjunct1, THEN mp, OF r]
  have a: "list_all (\<lambda>s. list_all (\<lambda>g. 0 \<le> g \<and> g \<le> 100) (grades s))
        (students (menu turkish_letters 2 (students (menu turkish_letters 1 [] [lit ''ann'']))
                          [lit ''ann'', lit ''90'', lit ''101'', lit ''-1'', lit ''100'', lit ''done'']))"
    using g by (simp only: list_all_iff)
  show ?thesis by (intro conjI r e a)
qed



subsection \<open>Menu loop\<close>

lemma emit_emit: "emit a (emit b res) = emit (a @ b) res"
  by (simp add: emit_def)

lemma emit_nil: "emit [] res = res"
  by (simp add: emit_def)

lemma main_loop_invalid:
  assumes "invalid_choice E line"
  shows "main_loop E r (line # ls) = emit (menu_text @ [choice_prompt, range_msg]) (main_loop E r ls)"
proof (cases "py_int E line")
  case None
  then show ?thesis by simp
next
  case (Some c)
  then have "c > 5 \<or> c < 1" using assms by (simp add: invalid_choice_def)
  then show ?thesis using Some by simp
qed

lemma main_loop_invalid_run:
  assumes "list_all (invalid_choice E) bad"
  shows "main_loop E r (bad @ ls)
           = emit (concat (map (\<lambda>line. menu_text @ [choice_prompt, range_msg]) bad))
               (main_loop E r ls)"
  using assms
proof (induction bad)
  case Nil
  show ?case by (simp add: emit_nil)
next
  case (Cons line bad)
  then have i: "invalid_choice E line" and rest: "list_all (invalid_choice E) bad" by simp_all
  have "main_loop E r ((line # bad) @ ls)
          = emit (menu_text @ [choice_prompt, range_msg]) (main_loop E r (bad @ ls))"
    using main_loop_invalid[OF i, of r "bad @ ls"] by simp
  also have "\<dots> = emit (menu_text @ [choice_prompt, range_msg])
                     (emit (concat (map (\<lambda>line. menu_text @ [choice_prompt, range_msg]) bad))
                        (main_loop E r ls))"
    using Cons.IH[OF rest] by simp
  finally show ?case by (simp add: emit_emit)
qed

lemma main_loop_exit:
  assumes "py_int E line = Some 5"
  shows "main_loop E r (line # ls)
           = \<lparr>status = Returned, students = r, pending = ls,
              console = menu_text @ [choice_prompt, Print (lit ''Exiting program'')]\<rparr>"
  using assms by (simp add: menu_def printed_def emit_def)

lemma main_loop_dispatch:
  assumes "py_int E line = Some c" "1 \<le> c" "c \<le> 4" "status (menu E c r ls) = Returned"
  shows "main_loop E r (line # ls)
           = emit (menu_text @ [choice_prompt] @ console (menu E c r ls))
               (main_loop E (students (menu E c r ls)) (pending (menu E c r ls)))"
  using assms by simp

lemma pending_suffix_add_student: "\<exists>pre. ls = pre @ pending (add_student E r ls)"
proof (induction ls)
  case Nil
  show ?case by simp
next
  case (Cons line ls)
  then obtain pre where p: "ls = pre @ pending (add_student E r ls)" by blast
  have a: "line # ls = (line # pre) @ pending (add_student E r ls)" using p by simp
  have b: "line # ls = [line] @ ls" by simp
  have "pending (add_student E r (line # ls)) = pending (add_student E r ls)
        \<or> pending (add_student E r (line # ls)) = ls"
    by (simp split: option.splits)
  then show ?case
  proof
    assume e: "pending (add_student E r (line # ls)) = pending (add_student E r ls)"
    show ?thesis unfolding e using a by (rule exI)
  next
    assume e: "pending (add_student E r (line # ls)) = ls"
    show ?thesis unfolding e using b by (rule exI)
  qed
qed

lemma pending_suffix_enter_grades: "\<exists>pre. ls = pre @ pending (enter_grades E nm r ls)"
proof (induction ls arbitrary: r)
  case Nil
  show ?case by simp
next
  case (Cons g ls)
  have b: "g # ls = [g] @ ls" by simp
  show ?case
  proof (cases "valid_input E g")
    case Done
    then have e: "pending (enter_grades E nm r (g # ls)) = ls" by simp
    show ?thesis unfolding e using b by (rule exI)
  next
    case (Grade v)
    from Cons[of "append_grade nm v r"] obtain pre where
      "ls = pre @ pending (enter_grades E nm (append_grade nm v r) ls)" by blast
    then have a: "g # ls = (g # pre) @ pending (enter_grades E nm (append_grade nm v r) ls)"
      by simp
    have e: "pending (enter_grades E nm r (g # ls))
               = pending (enter_grades E nm (append_grade nm v r) ls)"
      using Grade by simp
    show ?thesis unfolding e using a by (rule exI)
  next
    case Invalid
    from Cons[of r] obtain pre where "ls = pre @ pending (enter_grades E nm r ls)" by blast
    then have a: "g # ls = (g # pre) @ pending (enter_grades E nm r ls)" by simp
    have e: "pending (enter_grades E nm r (g # ls)) = pending (enter_grades E nm r ls)"
      using Invalid by simp
    show ?thesis unfolding e using a by (rule exI)
  qed
qed

lemma pending_suffix_add_grades: "\<exists>pre. ls = pre @ pending (add_grades E r ls)"
proof (induction ls)
  case Nil
  show ?case by simp
next
  case (Cons line ls)
  then obtain pre where p: "ls = pre @ pending (add_grades E r ls)" by blast
  have a: "line # ls = (line # pre) @ pending (add_grades E r ls)" using p by simp
  have b: "line # ls = [line] @ ls" by simp
  show ?case
  proof (cases "check_input E line")
    case None
    then have e: "pending (add_grades E r (line # ls)) = pending (add_grades E r ls)" by simp
    show ?thesis unfolding e using a by (rule exI)
  next
    case (Some nm)
    note c = Some
    show ?thesis
    proof (cases "find_student nm r")
      case None
      then have e: "pending (add_grades E r (line # ls)) = ls" using c by simp
      show ?thesis unfolding e using b by (rule exI)
    next
      case (Some s)
      from pending_suffix_enter_grades[of ls E nm r] obtain q where
        "ls = q @ pending (enter_grades E nm r ls)" by blast
      then have a': "line # ls = (line # q) @ pending (enter_grades E nm r ls)" by simp
      have e: "pending (add_grades E r (line # ls)) = pending (enter_grades E nm r ls)"
        using Some c by simp
      show ?thesis unfolding e using a' by (rule exI)
    qed
  qed
qed

lemma pending_printed [simp]: "pending (printed r ls res) = ls"
  by (simp add: printed_def split: sum.splits)

lemma pending_suffix_menu: "\<exists>pre. ls = pre @ pending (menu E select r ls)"
  using pending_suffix_add_student[of ls E r] pending_suffix_add_grades[of ls E r]
  by (simp add: menu_def)

lemma main_loop_returned:
  "status (main_loop E r ls) = Returned \<Longrightarrow> \<exists>line\<in>set ls. py_int E line = Some 5"
proof (induction E r ls rule: main_loop.induct)
  case (1 E r)
  then show ?case by simp
next
  case (2 E r line ls)
  show ?case
  proof (cases "invalid_choice E line")
    case True
    then have "status (main_loop E r ls) = Returned"
      using "2.prems" by (simp only: main_loop_invalid status_emit)
    moreover have "status (main_loop E r ls) = Returned \<Longrightarrow> \<exists>l\<in>set ls. py_int E l = Some 5"
    proof (cases "py_int E line")
      case None
      then show "status (main_loop E r ls) = Returned \<Longrightarrow> \<exists>l\<in>set ls. py_int E l = Some 5"
        by (rule "2.IH"(1))
    next
      case (Some c)
      then have "c > 5 \<or> c < 1" using True by (simp add: invalid_choice_def)
      with Some show "status (main_loop E r ls) = Returned \<Longrightarrow> \<exists>l\<in>set ls. py_int E l = Some 5"
        by (rule "2.IH"(2))
    qed
    ultimately show ?thesis by simp
  next
    case False
    then obtain c where c: "py_int E line = Some c" and rng: "\<not> (c > 5 \<or> c < 1)"
      by (auto simp: invalid_choice_def split: option.splits)
    show ?thesis
    proof (cases "status (menu E c r ls) \<noteq> Returned \<or> c = 5")
      case True
      then have "main_loop E r (line # ls) = emit (menu_text @ [choice_prompt]) (menu E c r ls)"
        using c rng by simp
      then have "status (menu E c r ls) = Returned" using "2.prems" by simp
      then have "c = 5" using True by simp
      then show ?thesis using c by simp
    next
      case False
      then have "main_loop E r (line # ls)
                   = emit (menu_text @ [choice_prompt] @ console (menu E c r ls))
                       (main_loop E (students (menu E c r ls)) (pending (menu E c r ls)))"
        using c rng by simp
      then have "status (main_loop E (students (menu E c r ls)) (pending (menu E c r ls))) = Returned"
        using "2.prems" by simp
      with c rng False
      have "\<exists>l\<in>set (pending (menu E c r ls)). py_int E l = Some 5" by (rule "2.IH"(3))
      moreover obtain pre where "ls = pre @ pending (menu E c r ls)"
        using pending_suffix_menu[of ls E c r] by blast
      then have "set (pending (menu E c r ls)) \<subseteq> set ls" by (metis set_append Un_upper2)
      ultimately show ?thesis by auto
    qed
  qed
qed

lemma main_loop_only_invalid:
  assumes "list_all (invalid_choice E) bad"
  shows "status (main_loop E r bad) = Raised EOFError \<and> students (main_loop E r bad) = r
         \<and> pending (main_loop E r bad) = []"
proof -
  have "main_loop E r (bad @ [])
          = emit (concat (map (\<lambda>line. menu_text @ [choice_prompt, range_msg]) bad))
              (main_loop E r [])"
    using assms by (rule main_loop_invalid_run)
  then show ?thesis by simp
qed

text \<open>
  C8. A line at the choice prompt that \<open>int\<close> rejects, or that parses to a number outside
  \<open>1..5\<close>, makes the loop print the range message and go on from the same roster; this
  holds for any number of such lines in a row, and input made only of such lines never
  ends the loop (it raises \<open>EOFError\<close> when the input is exhausted, with the roster as it
  was). A line that parses to 5 ends the loop at once: nothing more is read or asked. A
  choice from 1 to 4 whose operation returns continues the loop. The loop returns only if
  some line of the input parses to 5. The texts \<open>6\<close>, \<open>0\<close> and \<open>abc\<close> are invalid choices and
  \<open>5\<close> parses to 5.
\<close>

theorem menu_loop_choices:
  "(invalid_choice E line \<longrightarrow>
      main_loop E r (line # ls)
        = emit (menu_text @ [choice_prompt, range_msg]) (main_loop E r ls))
   \<and> (list_all (invalid_choice E) bad \<longrightarrow>
      main_loop E r (bad @ ls)
        = emit (concat (map (\<lambda>line. menu_text @ [choice_prompt, range_msg]) bad))
            (main_loop E r ls)
      \<and> status (main_loop E r bad) = Raised EOFError \<and> students (main_loop E r bad) = r)
   \<and> (py_int E line = Some 5 \<longrightarrow>
      main_loop E r (line # ls)
        = \<lparr>status = Returned, students = r, pending = ls,
           console = menu_text @ [choice_prompt, Print (lit ''Exiting program'')]\<rparr>)
   \<and> (py_int E line = Some c \<and> 1 \<le> c \<and> c \<le> 4 \<and> status (menu E c r ls) = Returned \<longrightarrow>
      main_loop E r (line # ls)
        = emit (menu_text @ [choice_prompt] @ console (menu E c r ls))
            (main_loop E (students (menu E c r ls)) (pending (menu E c r ls))))
   \<and> (status (main_loop E r ls) = Returned \<longrightarrow> list_ex (\<lambda>line. py_int E line = Some 5) ls)
   \<and> invalid_choice E (lit ''6'') \<and> invalid_choice E (lit ''0'') \<and> invalid_choice E (lit ''abc'')
   \<and> py_int E (lit ''5'') = Some 5"
proof (intro conjI impI)
  assume "invalid_choice E line"
  then show "main_loop E r (line # ls)
        = emit (menu_text @ [choice_prompt, range_msg]) (main_loop E r ls)"
    by (rule main_loop_invalid)
next
  assume b: "list_all (invalid_choice E) bad"
  show "main_loop E r (bad @ ls)
        = emit (concat (map (\<lambda>line. menu_text @ [choice_prompt, range_msg]) bad))
            (main_loop E r ls)"
    using b by (rule main_loop_invalid_run)
  show "status (main_loop E r bad) = Raised EOFError"
    using main_loop_only_invalid[OF b] by (rule conjunct1)
  show "students (main_loop E r bad) = r"
    using main_loop_only_invalid[OF b, of r] by simp
next
  assume "py_int E line = Some 5"
  then show "main_loop E r (line # ls)
        = \<lparr>status = Returned, students = r, pending = ls,
           console = menu_text @ [choice_prompt, Print (lit ''Exiting program'')]\<rparr>"
    by (rule main_loop_exit)
next
  assume "py_int E line = Some c \<and> 1 \<le> c \<and> c \<le> 4 \<and> status (menu E c r ls) = Returned"
  then show "main_loop E r (line # ls)
        = emit (menu_text @ [choice_prompt] @ console (menu E c r ls))
            (main_loop E (students (menu E c r ls)) (pending (menu E c r ls)))"
    using main_loop_dispatch[of E line c r ls] by blast
next
  assume "status (main_loop E r ls) = Returned"
  then show "list_ex (\<lambda>line. py_int E line = Some 5) ls"
    using main_loop_returned[of E r ls] by (simp add: list_ex_iff)
next
  show "invalid_choice E (lit ''6'')" by code_simp
  show "invalid_choice E (lit ''0'')" by code_simp
  show "invalid_choice E (lit ''abc'')" by code_simp
  show "py_int E (lit ''5'') = Some 5" by code_simp
qed

theorem menu_loop_choices_witness:
  "list_all (invalid_choice turkish_letters) [lit ''6'', lit ''0'', lit ''abc'']
   \<and> main_loop turkish_letters [\<lparr>name = lit ''Ann'', grades = [90]\<rparr>] ([lit ''6'', lit ''0'', lit ''abc''] @ [lit ''5'', lit ''1''])
       = emit (concat (map (\<lambda>line. menu_text @ [choice_prompt, range_msg]) [lit ''6'', lit ''0'', lit ''abc'']))
           (main_loop turkish_letters [\<lparr>name = lit ''Ann'', grades = [90]\<rparr>] [lit ''5'', lit ''1''])
   \<and> main_loop turkish_letters [\<lparr>name = lit ''Ann'', grades = [90]\<rparr>] [lit ''5'', lit ''1'']
       = \<lparr>status = Returned, students = [\<lparr>name = lit ''Ann'', grades = [90]\<rparr>], pending = [lit ''1''],
          console = menu_text @ [choice_prompt, Print (lit ''Exiting program'')]\<rparr>
   \<and> status (main_loop turkish_letters [\<lparr>name = lit ''Ann'', grades = [90]\<rparr>] [lit ''6'', lit ''0'', lit ''abc''])
       = Raised EOFError"
proof -
  have b: "list_all (invalid_choice turkish_letters) [lit ''6'', lit ''0'', lit ''abc'']" by code_simp
  have f: "py_int turkish_letters (lit ''5'') = Some 5" by code_simp
  note t = menu_loop_choices[of turkish_letters _ "[\<lparr>name = lit ''Ann'', grades = [90]\<rparr>]" _ "[lit ''6'', lit ''0'', lit ''abc'']"]
  note t2 = t[of "lit ''5''" "[lit ''5'', lit ''1'']", THEN conjunct2, THEN conjunct1, THEN mp, OF b]
  note t3 = menu_loop_choices[of turkish_letters "lit ''5''" "[\<lparr>name = lit ''Ann'', grades = [90]\<rparr>]" "[lit ''1'']",
              THEN conjunct2, THEN conjunct2, THEN conjunct1, THEN mp, OF f]
  show ?thesis
    by (intro conjI b t2[THEN conjunct1] t3 t2[THEN conjunct2, THEN conjunct1])
qed


subsection \<open>The report and its summary\<close>

lemma binary64_error_sum:
  assumes "\<bar>q\<bar> < 2 ^ 24"
  shows "\<bar>binary64 q - q\<bar> \<le> 1 / 2 ^ 30"
proof -
  have "\<bar>q\<bar> < 2 powi 24" using assms by simp
  from binary64_error[OF this] have "\<bar>binary64 q - q\<bar> \<le> 2 powi (- 30)" by simp
  moreover have "(2::rat) powi (- 30) = 1 / 2 ^ 30"
    by (simp only: power_int_minus power_int_numeral inverse_eq_divide)
  ultimately show ?thesis by (simp only:)
qed

lemma binary64_error_mean:
  assumes "\<bar>q\<bar> < 128"
  shows "\<bar>binary64 q - q\<bar> \<le> 1 / 2 ^ 47"
proof -
  have "\<bar>q\<bar> < 2 powi 7" using assms by simp
  from binary64_error[OF this] have "\<bar>binary64 q - q\<bar> \<le> 2 powi (- 47)" by simp
  moreover have "(2::rat) powi (- 47) = 1 / 2 ^ 47"
    by (simp only: power_int_minus power_int_numeral inverse_eq_divide)
  ultimately show ?thesis by (simp only:)
qed

lemma foldl_sum_error:
  assumes "\<forall>x\<in>set xs. \<bar>x\<bar> \<le> 101"
    and "\<bar>acc\<bar> + 102 * of_nat (length xs) \<le> 2 ^ 23"
  shows "\<bar>foldl (\<lambda>a x. binary64 (a + x)) acc xs - (acc + sum_list xs)\<bar>
           \<le> of_nat (length xs) / 2 ^ 30"
  using assms
proof (induction xs arbitrary: acc)
  case Nil
  show ?case by simp
next
  case (Cons x xs)
  define acc' where "acc' = binary64 (acc + x)"
  have x: "\<bar>x\<bar> \<le> 101" and rest: "\<forall>y\<in>set xs. \<bar>y\<bar> \<le> 101" using Cons.prems(1) by simp_all
  have n0: "(0::rat) \<le> of_nat (length xs)" by simp
  have b: "\<bar>acc\<bar> + 102 * (of_nat (length xs) + 1) \<le> (2::rat) ^ 23"
    using Cons.prems(2) by (simp add: algebra_simps)
  have "\<bar>acc + x\<bar> \<le> \<bar>acc\<bar> + 101" using x by linarith
  moreover have "\<bar>acc\<bar> + 101 < (2::rat) ^ 24" using b n0 by simp
  ultimately have "\<bar>acc + x\<bar> < 2 ^ 24" by linarith
  then have e: "\<bar>acc' - (acc + x)\<bar> \<le> 1 / 2 ^ 30" unfolding acc'_def by (rule binary64_error_sum)
  have "(1::rat) / 2 ^ 30 \<le> 1" by simp
  then have "\<bar>acc'\<bar> \<le> \<bar>acc\<bar> + 102" using e x by linarith
  then have b': "\<bar>acc'\<bar> + 102 * of_nat (length xs) \<le> 2 ^ 23" using b by (simp add: algebra_simps)
  have ih: "\<bar>foldl (\<lambda>a x. binary64 (a + x)) acc' xs - (acc' + sum_list xs)\<bar>
              \<le> of_nat (length xs) / 2 ^ 30"
    using rest b' by (rule Cons.IH)
  have "foldl (\<lambda>a x. binary64 (a + x)) acc (x # xs) = foldl (\<lambda>a x. binary64 (a + x)) acc' xs"
    by (simp add: acc'_def)
  moreover have "(of_nat (length (x # xs)) :: rat) / 2 ^ 30
                   = of_nat (length xs) / 2 ^ 30 + 1 / 2 ^ 30"
    by (simp add: add_divide_distrib)
  moreover have "acc + sum_list (x # xs) = acc + x + sum_list xs" by simp
  ultimately show ?case using ih e by linarith
qed

lemma nearest_tenth_general:
  fixes s n :: int and x d :: rat
  assumes "0 < n" "\<bar>x - of_int s / of_int n\<bar> \<le> d" "d < 1 / (20 * of_int n)"
  shows "\<bar>of_int (round_half_even (x * 10)) / 10 - (of_int s / of_int n :: rat)\<bar> \<le> 1 / 20"
proof -
  define m :: rat where "m = of_int s / of_int n"
  define k where "k = round_half_even (x * 10)"
  have err: "\<bar>x - m\<bar> \<le> d" using assms(2) by (simp add: m_def)
  have rk: "\<bar>of_int k - x * 10\<bar> \<le> 1 / 2" unfolding k_def by (rule rhe_error)
  have "\<bar>of_int k / 10 - m\<bar> \<le> 1 / 20"
  proof (rule ccontr)
    assume "\<not> \<bar>of_int k / 10 - m\<bar> \<le> 1 / 20"
    then consider "of_int k - 1 / 2 > 10 * m" | "of_int k + 1 / 2 < 10 * m" by linarith
    then show False
    proof cases
      case 1
      then have "m + 1 / (20 * of_int n) \<le> (2 * of_int k - 1) / 20"
        unfolding m_def using assms(1) by (intro tenth_gap) simp_all
      then show False using err assms(3) rk by (rule nearest_contr_down)
    next
      case 2
      then have "(2 * of_int k + 1) / 20 + 1 / (20 * of_int n) \<le> m"
        unfolding m_def using assms(1) by (intro tenth_gap_up) simp_all
      then show False using err assms(3) rk by (rule nearest_contr_up)
    qed
  qed
  then show ?thesis by (simp add: k_def m_def)
qed

lemma sum_list_diff_bound:
  fixes f g :: "'a \<Rightarrow> rat"
  assumes "\<forall>x\<in>set xs. \<bar>f x - g x\<bar> \<le> e"
  shows "\<bar>sum_list (map f xs) - sum_list (map g xs)\<bar> \<le> of_nat (length xs) * e"
  using assms
proof (induction xs)
  case Nil
  show ?case by simp
next
  case (Cons a xs)
  then have ih: "\<bar>sum_list (map f xs) - sum_list (map g xs)\<bar> \<le> of_nat (length xs) * e"
    and a: "\<bar>f a - g a\<bar> \<le> e" by simp_all
  have "(of_nat (length (a # xs)) :: rat) * e = of_nat (length xs) * e + e"
    by (simp add: algebra_simps)
  moreover have "sum_list (map f (a # xs)) - sum_list (map g (a # xs))
                   = (f a - g a) + (sum_list (map f xs) - sum_list (map g xs))" by simp
  ultimately show ?case using ih a by linarith
qed

lemma sum_list_tenths:
  "sum_list (map (\<lambda>x. (of_int (tenths x) :: rat) / 10) xs) = of_int (sum_list (map tenths xs)) / 10"
  by (induction xs) (simp_all add: add_divide_distrib)

lemma sum_list_tenths_range:
  assumes "\<forall>x\<in>set xs. 0 \<le> tenths x \<and> tenths x \<le> 1000"
  shows "0 \<le> sum_list (map tenths xs) \<and> sum_list (map tenths xs) \<le> 1000 * int (length xs)"
  using assms by (induction xs) auto

lemma shown_float:
  fixes k :: int
  assumes "0 \<le> k" "k \<le> 1000" "x = binary64 (of_int k / 10)"
  shows "\<bar>x - of_int k / 10\<bar> \<le> 1 / 2 ^ 47" and "\<bar>x\<bar> \<le> 101"
proof -
  define q :: rat where "q = of_int k / 10"
  have q: "0 \<le> q" "q \<le> 100" using assms(1,2) by (simp_all add: q_def)
  have e: "\<bar>binary64 q - q\<bar> \<le> 1 / 2 ^ 47" using q by (rule binary64_error_128)
  then show "\<bar>x - of_int k / 10\<bar> \<le> 1 / 2 ^ 47" unfolding assms(3) q_def .
  have "(1::rat) / 2 ^ 47 \<le> 1" by simp
  then have "\<bar>binary64 q\<bar> \<le> 101" using e q by linarith
  then show "\<bar>x\<bar> \<le> 101" unfolding assms(3) q_def .
qed

lemma overall_mean:
  assumes ne: "xs \<noteq> []" and len: "length xs \<le> 2 ^ 16"
    and sh: "\<forall>x\<in>set xs. 0 \<le> tenths x \<and> tenths x \<le> 1000 \<and> x = binary64 (of_int (tenths x) / 10)"
  shows "0 \<le> tenths (float_mean xs) \<and> tenths (float_mean xs) \<le> 1000
         \<and> \<bar>of_int (tenths (float_mean xs)) / 10 - shown_mean xs\<bar> \<le> 1 / 20"
proof -
  define c :: rat where "c = of_nat (length xs)"
  define n :: int where "n = 10 * int (length xs)"
  define s :: int where "s = sum_list (map tenths xs)"
  define S where "S = py_sum xs"
  define T where "T = shown_mean xs"
  define m where "m = float_mean xs"
  have c1: "1 \<le> c" using ne by (cases xs) (simp_all add: c_def)
  have c0: "0 < c" using c1 by linarith
  have "(of_nat (length xs) :: rat) \<le> of_nat (2 ^ 16)" using len by (simp only: of_nat_le_iff)
  then have cb: "c \<le> 2 ^ 16" by (simp add: c_def)
  have n0: "0 < n" using ne by (simp add: n_def)
  have nc: "(of_int n :: rat) = 10 * c" by (simp add: n_def c_def)
  have T: "T = of_int s / of_int n" by (simp add: T_def shown_mean_def s_def nc c_def)
  have Tc: "T * c = of_int s / 10" using c0 by (simp add: T nc)
  \<comment> \<open>the floats against the decimals they show\<close>
  have each: "\<forall>x\<in>set xs. \<bar>x - of_int (tenths x) / 10\<bar> \<le> 1 / 2 ^ 47"
    using sh shown_float(1) by blast
  have small: "\<forall>x\<in>set xs. \<bar>x\<bar> \<le> 101" using sh shown_float(2) by blast
  have "\<bar>sum_list (map (\<lambda>x. x) xs) - sum_list (map (\<lambda>x. of_int (tenths x) / 10) xs)\<bar>
          \<le> of_nat (length xs) * (1 / 2 ^ 47)"
    using each by (rule sum_list_diff_bound)
  then have d1: "\<bar>sum_list xs - of_int s / 10\<bar> \<le> c * (1 / 2 ^ 47)"
    by (simp add: sum_list_tenths s_def c_def)
  \<comment> \<open>the float sum against the exact sum\<close>
  have "(102::rat) * c \<le> 102 * 2 ^ 16" using cb by simp
  then have "\<bar>0::rat\<bar> + 102 * of_nat (length xs) \<le> 2 ^ 23" by (simp add: c_def)
  with small have "\<bar>foldl (\<lambda>a x. binary64 (a + x)) 0 xs - (0 + sum_list xs)\<bar>
          \<le> of_nat (length xs) / 2 ^ 30"
    by (rule foldl_sum_error)
  then have d2: "\<bar>S - sum_list xs\<bar> \<le> c * (1 / 2 ^ 30)"
    by (simp add: S_def py_sum_def c_def)
  have "c * (1 / 2 ^ 30 + 1 / 2 ^ 47) = c * (1 / 2 ^ 30) + c * (1 / 2 ^ 47)"
    by (rule distrib_left)
  then have d3: "\<bar>S - T * c\<bar> \<le> c * (1 / 2 ^ 30 + 1 / 2 ^ 47)"
    using d1 d2 unfolding Tc by linarith
  have "S / c - T = (S - T * c) / c" using c0 by (simp add: diff_divide_distrib)
  then have "\<bar>S / c - T\<bar> = \<bar>S - T * c\<bar> / \<bar>c\<bar>" by (simp only: abs_divide)
  also have "\<dots> = \<bar>S - T * c\<bar> / c" using c0 by simp
  also have "\<dots> \<le> (c * (1 / 2 ^ 30 + 1 / 2 ^ 47)) / c"
    using d3 c0 by (simp only: divide_right_mono less_imp_le)
  also have "\<dots> = 1 / 2 ^ 30 + 1 / 2 ^ 47" using c0 by simp
  finally have d4: "\<bar>S / c - T\<bar> \<le> 1 / 2 ^ 30 + 1 / 2 ^ 47" .
  \<comment> \<open>the range of the shown mean\<close>
  have rng: "\<forall>x\<in>set xs. 0 \<le> tenths x \<and> tenths x \<le> 1000" using sh by blast
  have sr: "0 \<le> s" "s \<le> 1000 * int (length xs)"
    using sum_list_tenths_range[OF rng] by (simp_all add: s_def)
  have "(of_int s :: rat) \<le> of_int (1000 * int (length xs))" using sr(2) by (simp only: of_int_le_iff)
  then have "(of_int s :: rat) \<le> 100 * of_int n" by (simp add: n_def)
  then have T100: "T \<le> 100" using n0 by (simp add: T pos_divide_le_eq)
  have T0: "0 \<le> T" using sr(1) n0 by (simp add: T)
  \<comment> \<open>the division\<close>
  have "(1::rat) / 2 ^ 30 + 1 / 2 ^ 47 \<le> 1" by simp
  then have "\<bar>S / c\<bar> < 128" using d4 T0 T100 by linarith
  then have d5: "\<bar>binary64 (S / c) - S / c\<bar> \<le> 1 / 2 ^ 47" by (rule binary64_error_mean)
  have mdef: "m = binary64 (S / c)" by (simp add: m_def float_mean_def S_def c_def)
  have "(1::rat) / 2 ^ 30 + 1 / 2 ^ 47 + 1 / 2 ^ 47 \<le> 1 / 2 ^ 29" by simp
  then have d6: "\<bar>m - T\<bar> \<le> 1 / 2 ^ 29" using d4 d5 unfolding mdef by linarith
  \<comment> \<open>far from every rounding boundary\<close>
  have "(20::rat) * of_int n \<le> 200 * 2 ^ 16" using cb by (simp add: nc)
  moreover have "(200::rat) * 2 ^ 16 < 2 ^ 29" by simp
  ultimately have "(20::rat) * of_int n < 2 ^ 29" by linarith
  moreover have "(0::rat) < 20 * of_int n" using n0 by simp
  ultimately have gap: "(1::rat) / 2 ^ 29 < 1 / (20 * of_int n)" by (simp add: frac_less2)
  have near: "\<bar>of_int (round_half_even (m * 10)) / 10 - (of_int s / of_int n :: rat)\<bar> \<le> 1 / 20"
    using n0 d6[unfolded T] gap by (rule nearest_tenth_general)
  then have near': "\<bar>of_int (tenths m) / 10 - T\<bar> \<le> 1 / 20" by (simp add: tenths_def T)
  have "(of_int (tenths m) :: rat) / 10 \<ge> - (1 / 20)" "(of_int (tenths m) :: rat) / 10 \<le> 100 + 1 / 20"
    using near' T0 T100 by linarith+
  then have "(of_int (tenths m) :: rat) > of_int (- 1)" "(of_int (tenths m) :: rat) < of_int 1001"
    by simp_all
  then have "- 1 < tenths m" "tenths m < 1001" by (simp_all only: of_int_less_iff)
  then show ?thesis using near' by (simp add: m_def T_def)
qed

lemma shown_fixed:
  fixes k :: int
  assumes "0 \<le> k" "k \<le> 1000"
  shows "tenths (binary64 (of_int k / 10)) = k"
    and "py_round1 (binary64 (of_int k / 10)) = binary64 (of_int k / 10)"
    and "py_repr1 (binary64 (of_int k / 10)) = decimal1 k"
proof -
  show t: "tenths (binary64 (of_int k / 10)) = k"
    unfolding tenths_def using assms by (rule tenths_stable)
  show "py_round1 (binary64 (of_int k / 10)) = binary64 (of_int k / 10)"
    unfolding py_round1_def using t by (simp only: tenths_def)
  show "py_repr1 (binary64 (of_int k / 10)) = decimal1 k" using assms by (rule repr_tenths)
qed

lemma averages_shown:
  assumes "valid_roster r" "\<forall>s\<in>set r. length (grades s) < 2 ^ 40"
  shows "\<forall>x\<in>set (map student_average (students_with_grades r)).
           0 \<le> tenths x \<and> tenths x \<le> 1000 \<and> x = binary64 (of_int (tenths x) / 10)"
proof
  fix x assume "x \<in> set (map student_average (students_with_grades r))"
  then obtain s where s: "s \<in> set (students_with_grades r)" and x: "x = student_average s"
    by auto
  have sr: "s \<in> set r" and g: "grades s \<noteq> []" using s by (simp_all add: swg_member)
  have v: "valid_grades (grades s)" using assms(1) sr by (rule valid_roster_member)
  have l: "length (grades s) < 2 ^ 40" using assms(2) sr by blast
  define k where "k = tenths (mean_value s)"
  have k: "0 \<le> k" "k \<le> 1000" and a: "student_average s = binary64 (of_int k / 10)"
    using average_is_nearest_tenth[OF g v l] by (simp_all add: k_def)
  have t: "tenths x = k" unfolding x a using k by (rule shown_fixed(1))
  show "0 \<le> tenths x \<and> tenths x \<le> 1000 \<and> x = binary64 (of_int (tenths x) / 10)"
    unfolding t using k x a by simp
qed

lemma shown_prints:
  assumes "0 \<le> tenths x \<and> tenths x \<le> 1000 \<and> x = binary64 (of_int (tenths x) / 10)"
  shows "py_round1 x = x \<and> py_repr1 (py_round1 x) = decimal1 (tenths x)"
proof -
  define k where "k = tenths x"
  have k: "0 \<le> k" "k \<le> 1000" and x: "x = binary64 (of_int k / 10)"
    using assms unfolding k_def by blast+
  have r: "py_round1 (binary64 (of_int k / 10)) = binary64 (of_int k / 10)"
    using k by (rule shown_fixed(2))
  have p: "py_repr1 (binary64 (of_int k / 10)) = decimal1 k"
    using k by (rule shown_fixed(3))
  have a: "py_round1 x = x" unfolding x by (rule r)
  have b: "py_repr1 (py_round1 x) = decimal1 (tenths x)"
    unfolding k_def[symmetric] unfolding x r by (rule p)
  show ?thesis using a b by (rule conjI)
qed

text \<open>
  C3. For a roster that is not empty \<open>show_report\<close> prints the header, then one line per
  student in insertion order (the average, or \<open>N/A\<close>), then the summary. If no student has
  a grade the summary is the single line \<open>No grades available for summary.\<close>. Otherwise it
  is the separator and three lines computed from the averages of the students with
  grades: their maximum, their minimum and their mean, each rounded to one decimal. For
  grades in \<open>0..100\<close>, fewer than \<open>2 ^ 40\<close> grades per student and at most \<open>2 ^ 16\<close> students, the
  rounding leaves maximum and minimum as they are, each of the three lines shows a decimal
  with one digit after the point, and the decimal of the third line is within \<open>1 / 20\<close> of
  the arithmetic mean of the averages as shown.
\<close>

theorem report_summary:
  assumes "r \<noteq> []"
  shows "(students_with_grades r = [] \<longrightarrow>
            show_report r
              = Inr (Print (lit ''-----Student Report-----'') # map student_line r
                     @ [Print (lit ''No grades available for summary.'')]))
         \<and> (students_with_grades r \<noteq> [] \<longrightarrow>
            show_report r
              = Inr (Print (lit ''-----Student Report-----'') # map student_line r
                     @ [Print (lit ''-------------------------''),
                        Print (lit ''Max average: '' @ py_repr1 (py_round1
                          (Max (set (map student_average (students_with_grades r)))))),
                        Print (lit ''Min average: '' @ py_repr1 (py_round1
                          (Min (set (map student_average (students_with_grades r)))))),
                        Print (lit ''Overall average: '' @ py_repr1 (py_round1
                          (float_mean (map student_average (students_with_grades r)))))]))
         \<and> (students_with_grades r \<noteq> [] \<and> valid_roster r
              \<and> (\<forall>s\<in>set r. length (grades s) < 2 ^ 40) \<and> length r \<le> 2 ^ 16 \<longrightarrow>
            py_round1 (Max (set (map student_average (students_with_grades r))))
              = Max (set (map student_average (students_with_grades r)))
            \<and> py_round1 (Min (set (map student_average (students_with_grades r))))
              = Min (set (map student_average (students_with_grades r)))
            \<and> py_repr1 (py_round1 (Max (set (map student_average (students_with_grades r)))))
              = decimal1 (tenths (Max (set (map student_average (students_with_grades r)))))
            \<and> py_repr1 (py_round1 (Min (set (map student_average (students_with_grades r)))))
              = decimal1 (tenths (Min (set (map student_average (students_with_grades r)))))
            \<and> py_repr1 (py_round1 (float_mean (map student_average (students_with_grades r))))
              = decimal1 (tenths (float_mean (map student_average (students_with_grades r))))
            \<and> \<bar>of_int (tenths (float_mean (map student_average (students_with_grades r)))) / 10
                 - shown_mean (map student_average (students_with_grades r))\<bar> \<le> 1 / 20)"
proof (intro conjI impI)
  assume "students_with_grades r = []"
  with assms show "show_report r
              = Inr (Print (lit ''-----Student Report-----'') # map student_line r
                     @ [Print (lit ''No grades available for summary.'')])"
    by (rule show_report_no_grades)
next
  assume "students_with_grades r \<noteq> []"
  then show "show_report r
              = Inr (Print (lit ''-----Student Report-----'') # map student_line r
                     @ [Print (lit ''-------------------------''),
                        Print (lit ''Max average: '' @ py_repr1 (py_round1
                          (Max (set (map student_average (students_with_grades r)))))),
                        Print (lit ''Min average: '' @ py_repr1 (py_round1
                          (Min (set (map student_average (students_with_grades r)))))),
                        Print (lit ''Overall average: '' @ py_repr1 (py_round1
                          (float_mean (map student_average (students_with_grades r)))))])"
    by (rule show_report_summary)
next
  define avs where "avs = map student_average (students_with_grades r)"
  assume h: "students_with_grades r \<noteq> [] \<and> valid_roster r
              \<and> (\<forall>s\<in>set r. length (grades s) < 2 ^ 40) \<and> length r \<le> 2 ^ 16"
  then have ne: "avs \<noteq> []" by (simp add: avs_def)
  have "length avs \<le> length r" by (simp add: avs_def students_with_grades_def)
  then have len: "length avs \<le> 2 ^ 16" using h by linarith
  have v: "valid_roster r" and l: "\<forall>s\<in>set r. length (grades s) < 2 ^ 40" using h by blast+
  have sh: "\<forall>x\<in>set avs. 0 \<le> tenths x \<and> tenths x \<le> 1000
                           \<and> x = binary64 (of_int (tenths x) / 10)"
    unfolding avs_def using v l by (rule averages_shown)
  have "Max (set avs) \<in> set avs" using ne by (intro Max_in) simp_all
  then have mx: "py_round1 (Max (set avs)) = Max (set avs)
                 \<and> py_repr1 (py_round1 (Max (set avs))) = decimal1 (tenths (Max (set avs)))"
    using sh shown_prints by blast
  have "Min (set avs) \<in> set avs" using ne by (intro Min_in) simp_all
  then have mn: "py_round1 (Min (set avs)) = Min (set avs)
                 \<and> py_repr1 (py_round1 (Min (set avs))) = decimal1 (tenths (Min (set avs)))"
    using sh shown_prints by blast
  have ov: "0 \<le> tenths (float_mean avs) \<and> tenths (float_mean avs) \<le> 1000
            \<and> \<bar>of_int (tenths (float_mean avs)) / 10 - shown_mean avs\<bar> \<le> 1 / 20"
    using ne len sh by (rule overall_mean)
  have "py_repr1 (binary64 (of_int (tenths (float_mean avs)) / 10))
          = decimal1 (tenths (float_mean avs))"
    using ov by (intro repr_tenths) simp_all
  then have pr: "py_repr1 (py_round1 (float_mean avs)) = decimal1 (tenths (float_mean avs))"
    by (simp only: py_round1_def tenths_def)
  show "py_round1 (Max (set (map student_average (students_with_grades r))))
              = Max (set (map student_average (students_with_grades r)))"
    using mx unfolding avs_def by (rule conjunct1)
  show "py_round1 (Min (set (map student_average (students_with_grades r))))
              = Min (set (map student_average (students_with_grades r)))"
    using mn unfolding avs_def by (rule conjunct1)
  show "py_repr1 (py_round1 (Max (set (map student_average (students_with_grades r)))))
              = decimal1 (tenths (Max (set (map student_average (students_with_grades r)))))"
    using mx unfolding avs_def by (rule conjunct2)
  show "py_repr1 (py_round1 (Min (set (map student_average (students_with_grades r)))))
              = decimal1 (tenths (Min (set (map student_average (students_with_grades r)))))"
    using mn unfolding avs_def by (rule conjunct2)
  show "py_repr1 (py_round1 (float_mean (map student_average (students_with_grades r))))
              = decimal1 (tenths (float_mean (map student_average (students_with_grades r))))"
    using pr unfolding avs_def .
  show "\<bar>of_int (tenths (float_mean (map student_average (students_with_grades r)))) / 10
                 - shown_mean (map student_average (students_with_grades r))\<bar> \<le> 1 / 20"
    using ov unfolding avs_def by blast
qed

theorem report_summary_witness:
  "[\<lparr>name = lit ''Zed'', grades = []\<rparr>, \<lparr>name = lit ''Ann'', grades = [90, 100]\<rparr>,
    \<lparr>name = lit ''Bo'', grades = [95, 96]\<rparr>, \<lparr>name = lit ''Cy'', grades = [7]\<rparr>] \<noteq> []
   \<and> show_report
        [\<lparr>name = lit ''Zed'', grades = []\<rparr>, \<lparr>name = lit ''Ann'', grades = [90, 100]\<rparr>,
         \<lparr>name = lit ''Bo'', grades = [95, 96]\<rparr>, \<lparr>name = lit ''Cy'', grades = [7]\<rparr>]
       = Inr [Print (lit ''-----Student Report-----''),
              Print (lit ''Zed'' @ [39] @ lit ''s average grade is N/A.''),
              Print (lit ''Ann'' @ [39] @ lit ''s average grade is 95.0.''),
              Print (lit ''Bo'' @ [39] @ lit ''s average grade is 95.5.''),
              Print (lit ''Cy'' @ [39] @ lit ''s average grade is 7.0.''),
              Print (lit ''-------------------------''),
              Print (lit ''Max average: 95.5''),
              Print (lit ''Min average: 7.0''),
              Print (lit ''Overall average: 65.8'')]
   \<and> \<bar>of_int (tenths (float_mean (map student_average (students_with_grades
          [\<lparr>name = lit ''Zed'', grades = []\<rparr>, \<lparr>name = lit ''Ann'', grades = [90, 100]\<rparr>,
           \<lparr>name = lit ''Bo'', grades = [95, 96]\<rparr>, \<lparr>name = lit ''Cy'', grades = [7]\<rparr>])))) / 10
        - shown_mean (map student_average (students_with_grades
          [\<lparr>name = lit ''Zed'', grades = []\<rparr>, \<lparr>name = lit ''Ann'', grades = [90, 100]\<rparr>,
           \<lparr>name = lit ''Bo'', grades = [95, 96]\<rparr>, \<lparr>name = lit ''Cy'', grades = [7]\<rparr>]))\<bar> \<le> 1 / 20
   \<and> shown_mean (map student_average (students_with_grades
          [\<lparr>name = lit ''Zed'', grades = []\<rparr>, \<lparr>name = lit ''Ann'', grades = [90, 100]\<rparr>,
           \<lparr>name = lit ''Bo'', grades = [95, 96]\<rparr>, \<lparr>name = lit ''Cy'', grades = [7]\<rparr>])) = 395 / 6
   \<and> show_report [\<lparr>name = lit ''A'', grades = [0, 0, 0, 0, 0, 0, 0, 1, 1, 1]\<rparr>,
                    \<lparr>name = lit ''B'', grades = [0, 0, 0, 1, 1]\<rparr>]
       = Inr [Print (lit ''-----Student Report-----''),
              Print (lit ''A'' @ [39] @ lit ''s average grade is 0.3.''),
              Print (lit ''B'' @ [39] @ lit ''s average grade is 0.4.''),
              Print (lit ''-------------------------''),
              Print (lit ''Max average: 0.4''),
              Print (lit ''Min average: 0.3''),
              Print (lit ''Overall average: 0.3'')]"
proof -
  define R where "R = [\<lparr>name = lit ''Zed'', grades = []\<rparr>, \<lparr>name = lit ''Ann'', grades = [90, 100]\<rparr>,
    \<lparr>name = lit ''Bo'', grades = [95, 96]\<rparr>, \<lparr>name = lit ''Cy'', grades = [7]\<rparr>]"
  have ne: "R \<noteq> []" by (simp add: R_def)
  have h: "students_with_grades R \<noteq> [] \<and> valid_roster R
              \<and> (\<forall>s\<in>set R. length (grades s) < 2 ^ 40) \<and> length R \<le> 2 ^ 16"
    by (simp add: R_def students_with_grades_def valid_roster_def valid_grades_def)
  note t = report_summary[OF ne, THEN conjunct2, THEN conjunct2, THEN mp, OF h]
  have near: "\<bar>of_int (tenths (float_mean (map student_average (students_with_grades R)))) / 10
                 - shown_mean (map student_average (students_with_grades R))\<bar> \<le> 1 / 20"
    using t by blast
  have out: "show_report
        [\<lparr>name = lit ''Zed'', grades = []\<rparr>, \<lparr>name = lit ''Ann'', grades = [90, 100]\<rparr>,
         \<lparr>name = lit ''Bo'', grades = [95, 96]\<rparr>, \<lparr>name = lit ''Cy'', grades = [7]\<rparr>]
       = Inr [Print (lit ''-----Student Report-----''),
              Print (lit ''Zed'' @ [39] @ lit ''s average grade is N/A.''),
              Print (lit ''Ann'' @ [39] @ lit ''s average grade is 95.0.''),
              Print (lit ''Bo'' @ [39] @ lit ''s average grade is 95.5.''),
              Print (lit ''Cy'' @ [39] @ lit ''s average grade is 7.0.''),
              Print (lit ''-------------------------''),
              Print (lit ''Max average: 95.5''),
              Print (lit ''Min average: 7.0''),
              Print (lit ''Overall average: 65.8'')]"
    by code_simp
  have sm: "shown_mean (map student_average (students_with_grades
          [\<lparr>name = lit ''Zed'', grades = []\<rparr>, \<lparr>name = lit ''Ann'', grades = [90, 100]\<rparr>,
           \<lparr>name = lit ''Bo'', grades = [95, 96]\<rparr>, \<lparr>name = lit ''Cy'', grades = [7]\<rparr>])) = 395 / 6"
    by code_simp
  have tie: "show_report [\<lparr>name = lit ''A'', grades = [0, 0, 0, 0, 0, 0, 0, 1, 1, 1]\<rparr>,
                    \<lparr>name = lit ''B'', grades = [0, 0, 0, 1, 1]\<rparr>]
       = Inr [Print (lit ''-----Student Report-----''),
              Print (lit ''A'' @ [39] @ lit ''s average grade is 0.3.''),
              Print (lit ''B'' @ [39] @ lit ''s average grade is 0.4.''),
              Print (lit ''-------------------------''),
              Print (lit ''Max average: 0.4''),
              Print (lit ''Min average: 0.3''),
              Print (lit ''Overall average: 0.3'')]"
    by code_simp
  show ?thesis by (intro conjI ne[unfolded R_def] out near[unfolded R_def] sm tie)
qed


end
